(* ===== verification/Prelude.thy ===== *)
theory Prelude
  imports Main "HOL-Library.Word"
begin

text \<open>
  Shared vocabulary of the development: the machine integers of the node, the checked and
  saturating arithmetic of Rust's standard library, results as sums, and the early-return loops
  (\<open>for .. { ..? }\<close>, \<open>try_fold\<close>, \<open>find_map\<close>) that the components
  use. The release profile of the workspace sets \<open>overflow-checks = true\<close>, so a plain
  \<open>+\<close>, \<open>-\<close> or \<open>*\<close> that leaves the type's range panics: it is
  modelled by the checked operation, with \<open>None\<close> (or an error value) for the panic.
\<close>

type_synonym u8 = "8 word"
type_synonym u16 = "16 word"
type_synonym u32 = "32 word"
type_synonym u64 = "64 word"
type_synonym u128 = "128 word"
type_synonym usize = "64 word"

named_theorems rust_arith \<open>characterisations of checked and saturating arithmetic by natural numbers\<close>
named_theorems result_simps \<open>rewrite rules for results, options and early-return loops\<close>

section \<open>Checked and saturating arithmetic\<close>

definition checked_add :: "'a::len word \<Rightarrow> 'a word \<Rightarrow> 'a word option" where
  "checked_add a b = (if unat a + unat b < 2 ^ LENGTH('a) then Some (a + b) else None)"

definition checked_sub :: "'a::len word \<Rightarrow> 'a word \<Rightarrow> 'a word option" where
  "checked_sub a b = (if b \<le> a then Some (a - b) else None)"

definition checked_mul :: "'a::len word \<Rightarrow> 'a word \<Rightarrow> 'a word option" where
  "checked_mul a b = (if unat a * unat b < 2 ^ LENGTH('a) then Some (a * b) else None)"

definition checked_div :: "'a::len word \<Rightarrow> 'a word \<Rightarrow> 'a word option" where
  "checked_div a b = (if b = 0 then None else Some (a div b))"

definition saturating_add :: "'a::len word \<Rightarrow> 'a word \<Rightarrow> 'a word" where
  "saturating_add a b = (if unat a + unat b < 2 ^ LENGTH('a) then a + b else - 1)"

definition saturating_sub :: "'a::len word \<Rightarrow> 'a word \<Rightarrow> 'a word" where
  "saturating_sub a b = (if b \<le> a then a - b else 0)"

definition saturating_mul :: "'a::len word \<Rightarrow> 'a word \<Rightarrow> 'a word" where
  "saturating_mul a b = (if unat a * unat b < 2 ^ LENGTH('a) then a * b else - 1)"

lemma unat_lt2p: "unat w < 2 ^ LENGTH('a)" for w :: "'a::len word"
  by (rule unsigned_less)

lemma unat_max_word [simp]: "unat (- 1 :: 'a::len word) = 2 ^ LENGTH('a) - 1"
  by (simp add: unsigned_minus_1_eq_mask mask_eq_exp_minus_1)

lemma checked_add_Some [rust_arith]:
  "checked_add a b = Some c \<longleftrightarrow> unat c = unat a + unat b" for a b c :: "'a::len word"
proof
  assume "checked_add a b = Some c"
  then show "unat c = unat a + unat b"
    by (auto simp: checked_add_def unat_word_ariths split: if_splits)
next
  assume eq: "unat c = unat a + unat b"
  then have lt: "unat a + unat b < 2 ^ LENGTH('a)"
    by (metis unsigned_less)
  then have "a + b = c"
    using eq by (simp add: word_unat_eq_iff unat_word_ariths)
  then show "checked_add a b = Some c"
    using lt by (simp add: checked_add_def)
qed

lemma checked_add_None [rust_arith]:
  "checked_add a b = None \<longleftrightarrow> 2 ^ LENGTH('a) \<le> unat a + unat b" for a b :: "'a::len word"
  by (auto simp: checked_add_def)

lemma checked_sub_Some [rust_arith]:
  "checked_sub a b = Some c \<longleftrightarrow> unat a = unat b + unat c" for a b c :: "'a::len word"
proof
  assume "checked_sub a b = Some c"
  then show "unat a = unat b + unat c"
    by (auto simp: checked_sub_def unat_sub word_le_nat_alt split: if_splits)
next
  assume eq: "unat a = unat b + unat c"
  then have le: "b \<le> a"
    by (simp add: word_le_nat_alt)
  then have "a - b = c"
    using eq by (simp add: word_unat_eq_iff unat_sub)
  then show "checked_sub a b = Some c"
    using le by (simp add: checked_sub_def)
qed

lemma checked_sub_None [rust_arith]: "checked_sub a b = None \<longleftrightarrow> unat a < unat b"
  by (auto simp: checked_sub_def word_le_nat_alt not_le)

lemma checked_mul_Some [rust_arith]:
  "checked_mul a b = Some c \<longleftrightarrow> unat c = unat a * unat b" for a b c :: "'a::len word"
proof
  assume "checked_mul a b = Some c"
  then show "unat c = unat a * unat b"
    by (auto simp: checked_mul_def unat_word_ariths split: if_splits)
next
  assume eq: "unat c = unat a * unat b"
  then have lt: "unat a * unat b < 2 ^ LENGTH('a)"
    by (metis unsigned_less)
  then have "a * b = c"
    using eq by (simp add: word_unat_eq_iff unat_word_ariths)
  then show "checked_mul a b = Some c"
    using lt by (simp add: checked_mul_def)
qed

lemma checked_mul_None [rust_arith]:
  "checked_mul a b = None \<longleftrightarrow> 2 ^ LENGTH('a) \<le> unat a * unat b" for a b :: "'a::len word"
  by (auto simp: checked_mul_def)

lemma checked_div_Some [rust_arith]:
  "checked_div a b = Some c \<longleftrightarrow> b \<noteq> 0 \<and> unat c = unat a div unat b"
  by (auto simp: checked_div_def word_unat_eq_iff unat_div_distrib)

lemma unat_saturating_add [rust_arith]:
  "unat (saturating_add a b) = min (unat a + unat b) (2 ^ LENGTH('a) - 1)" for a b :: "'a::len word"
  by (auto simp: saturating_add_def unat_word_ariths min_def)

lemma unat_saturating_sub [rust_arith]:
  "unat (saturating_sub a b) = unat a - unat b" for a b :: "'a::len word"
  by (auto simp: saturating_sub_def unat_sub word_le_nat_alt not_le)

lemma unat_saturating_mul [rust_arith]:
  "unat (saturating_mul a b) = min (unat a * unat b) (2 ^ LENGTH('a) - 1)" for a b :: "'a::len word"
proof (cases "unat a * unat b < 2 ^ LENGTH('a)")
  case True
  then show ?thesis
    by (simp add: saturating_mul_def unat_word_ariths min_absorb1 less_imp_le_nat)
next
  case False
  then show ?thesis
    by (simp add: saturating_mul_def min_absorb2)
qed

lemma unat_zero_iff_word: "unat a = 0 \<longleftrightarrow> a = 0" for a :: "'a::len word"
  by (rule unsigned_eq_0_iff)

text \<open>Widening a \<open>u64\<close> to \<open>u128\<close>: the product of two widened values never overflows.\<close>

lemma unat_ucast_u128 [simp]: "unat (ucast a :: u128) = unat a" for a :: u64
proof -
  have "unat a < 2 ^ 128"
    using unat_lt2p [of a] by simp
  then show ?thesis
    by (simp add: unsigned_ucast_eq take_bit_nat_eq_self)
qed

lemma unat_u128_mul:
  fixes a b :: u64
  shows "unat ((ucast a :: u128) * ucast b) = unat a * unat b"
proof -
  have "unat a * unat b < 2 ^ 64 * 2 ^ 64"
    using unat_lt2p [of a] unat_lt2p [of b] by (intro mult_strict_mono) auto
  then show ?thesis
    by (simp add: unat_word_ariths)
qed

lemmas word_nat_simps = word_le_nat_alt word_less_nat_alt

section \<open>Results and early returns\<close>

text \<open>\<open>Option::ok_or\<close>, the \<open>?\<close> operator, and \<open>Result::map\<close>.\<close>

definition ok_or :: "'e \<Rightarrow> 'a option \<Rightarrow> 'e + 'a" where
  "ok_or e x = (case x of None \<Rightarrow> Inl e | Some a \<Rightarrow> Inr a)"

definition r_bind :: "'e + 'a \<Rightarrow> ('a \<Rightarrow> 'e + 'b) \<Rightarrow> 'e + 'b" where
  "r_bind x f = (case x of Inl e \<Rightarrow> Inl e | Inr a \<Rightarrow> f a)"

definition r_then :: "'e + unit \<Rightarrow> 'e + 'b \<Rightarrow> 'e + 'b" where
  "r_then x y = (case x of Inl e \<Rightarrow> Inl e | Inr _ \<Rightarrow> y)"

definition r_map :: "('a \<Rightarrow> 'b) \<Rightarrow> 'e + 'a \<Rightarrow> 'e + 'b" where
  "r_map f x = (case x of Inl e \<Rightarrow> Inl e | Inr a \<Rightarrow> Inr (f a))"

definition guard_r :: "bool \<Rightarrow> 'e \<Rightarrow> 'e + unit" where
  "guard_r b e = (if b then Inl e else Inr ())"

lemma ok_or_Inr [simp, result_simps]: "ok_or e x = Inr a \<longleftrightarrow> x = Some a"
  by (simp add: ok_or_def split: option.splits)

lemma ok_or_Inl [simp, result_simps]: "ok_or e x = Inl e' \<longleftrightarrow> x = None \<and> e' = e"
  by (auto simp: ok_or_def split: option.splits)

lemma ok_or_simps [simp]: "ok_or e None = Inl e" "ok_or e (Some a) = Inr a"
  by (simp_all add: ok_or_def)

lemma case_option_Inr:
  "(case x of None \<Rightarrow> Inl e | Some y \<Rightarrow> f y) = Inr b \<longleftrightarrow> (\<exists>y. x = Some y \<and> f y = Inr b)"
  by (simp split: option.splits)

lemma r_bind_simps [simp]: "r_bind (Inl e) f = Inl e" "r_bind (Inr a) f = f a"
  by (simp_all add: r_bind_def)

lemma r_bind_Inr [result_simps]: "r_bind x f = Inr b \<longleftrightarrow> (\<exists>a. x = Inr a \<and> f a = Inr b)"
  by (simp add: r_bind_def split: sum.splits)

lemma r_bind_Inl [result_simps]:
  "r_bind x f = Inl e \<longleftrightarrow> x = Inl e \<or> (\<exists>a. x = Inr a \<and> f a = Inl e)"
  by (simp add: r_bind_def split: sum.splits)

lemma r_then_simps [simp]: "r_then (Inl e) y = Inl e" "r_then (Inr u) y = y"
  by (simp_all add: r_then_def)

lemma r_then_Inr [result_simps]: "r_then x y = Inr b \<longleftrightarrow> x = Inr () \<and> y = Inr b"
  by (auto simp: r_then_def split: sum.splits)

lemma r_then_Inl [result_simps]: "r_then x y = Inl e \<longleftrightarrow> x = Inl e \<or> (x = Inr () \<and> y = Inl e)"
  by (auto simp: r_then_def split: sum.splits)

lemma r_map_simps [simp]: "r_map f (Inl e) = Inl e" "r_map f (Inr a) = Inr (f a)"
  by (simp_all add: r_map_def)

lemma r_map_Inr [result_simps]: "r_map f x = Inr b \<longleftrightarrow> (\<exists>a. x = Inr a \<and> b = f a)"
  by (auto simp: r_map_def split: sum.splits)

lemma guard_r_Inr [simp, result_simps]: "guard_r b e = Inr u \<longleftrightarrow> \<not> b"
  by (simp add: guard_r_def)

lemma guard_r_Inl [simp, result_simps]: "guard_r b e = Inl e' \<longleftrightarrow> b \<and> e' = e"
  by (auto simp: guard_r_def)

text \<open>\<open>for x in xs { f(x)?; }\<close>\<close>

fun try_each :: "('a \<Rightarrow> 'e + unit) \<Rightarrow> 'a list \<Rightarrow> 'e + unit" where
  "try_each f [] = Inr ()"
| "try_each f (x # xs) = r_then (f x) (try_each f xs)"

lemma try_each_Inr [result_simps]: "try_each f xs = Inr u \<longleftrightarrow> (\<forall>x\<in>set xs. f x = Inr ())"
  by (induction xs) (auto simp: result_simps)

text \<open>The loop stops at the first element that fails, with that element's error.\<close>

lemma try_each_Inl [result_simps]:
  "try_each f xs = Inl e \<longleftrightarrow>
     (\<exists>i<length xs. f (xs ! i) = Inl e \<and> (\<forall>j<i. f (xs ! j) = Inr ()))"
proof (induction xs)
  case Nil
  then show ?case by simp
next
  case (Cons a xs)
  show ?case
  proof (cases "f a")
    case (Inl e')
    then have "(\<forall>j<i. f ((a # xs) ! j) = Inr ()) \<longleftrightarrow> i = 0" for i
      by (cases i) auto
    then show ?thesis
      using Inl by auto
  next
    case (Inr u)
    then have "f ((a # xs) ! i) = Inl e \<and> (\<forall>j<i. f ((a # xs) ! j) = Inr ()) \<longleftrightarrow>
        (\<exists>k. i = Suc k \<and> f (xs ! k) = Inl e \<and> (\<forall>j<k. f (xs ! j) = Inr ()))" for i
      by (cases i) (auto simp: less_Suc_eq_0_disj)
    then show ?thesis
      using Inr Cons.IH by auto
  qed
qed

text \<open>\<open>Iterator::try_fold\<close> over a result.\<close>

fun try_fold :: "('s \<Rightarrow> 'a \<Rightarrow> 'e + 's) \<Rightarrow> 's \<Rightarrow> 'a list \<Rightarrow> 'e + 's" where
  "try_fold f s [] = Inr s"
| "try_fold f s (x # xs) = r_bind (f s x) (\<lambda>s'. try_fold f s' xs)"

lemma try_fold_cong:
  "(\<And>s x. x \<in> set xs \<Longrightarrow> f s x = g s x) \<Longrightarrow> try_fold f s xs = try_fold g s xs"
  by (induction xs arbitrary: s) (simp_all add: r_bind_def split: sum.splits)

lemma try_fold_invariant:
  assumes "try_fold f s xs = Inr s'" "P s"
    "\<And>s x s'. x \<in> set xs \<Longrightarrow> P s \<Longrightarrow> f s x = Inr s' \<Longrightarrow> P s'"
  shows "P s'"
  using assms by (induction xs arbitrary: s) (auto simp: result_simps)

lemma try_fold_progress:
  assumes "P s" "\<And>s x. x \<in> set xs \<Longrightarrow> P s \<Longrightarrow> \<exists>s'. f s x = Inr s' \<and> P s'"
  shows "\<exists>s'. try_fold f s xs = Inr s' \<and> P s'"
  using assms
proof (induction xs arbitrary: s)
  case (Cons x xs)
  obtain s1 where "f s x = Inr s1" "P s1" using Cons.prems(2) [of x s] Cons.prems(1) by auto
  moreover have "\<exists>s'. try_fold f s1 xs = Inr s' \<and> P s'"
    using Cons.IH [OF \<open>P s1\<close>] Cons.prems(2) by simp
  ultimately show ?case by simp
qed simp

text \<open>\<open>Iterator::find_map\<close> and \<open>Iterator::position\<close>.\<close>

fun find_map :: "('a \<Rightarrow> 'b option) \<Rightarrow> 'a list \<Rightarrow> 'b option" where
  "find_map f [] = None"
| "find_map f (x # xs) = (case f x of Some b \<Rightarrow> Some b | None \<Rightarrow> find_map f xs)"

lemma find_map_None: "find_map f xs = None \<longleftrightarrow> (\<forall>x\<in>set xs. f x = None)"
  by (induction xs) (auto split: option.splits)

lemma find_map_SomeD: "find_map f xs = Some b \<Longrightarrow> \<exists>x\<in>set xs. f x = Some b"
  by (induction xs) (auto split: option.splits)

fun position :: "('a \<Rightarrow> bool) \<Rightarrow> 'a list \<Rightarrow> nat option" where
  "position P [] = None"
| "position P (x # xs) = (if P x then Some 0 else map_option Suc (position P xs))"

lemma position_None: "position P xs = None \<longleftrightarrow> (\<forall>x\<in>set xs. \<not> P x)"
  by (induction xs) auto

lemma position_SomeD:
  "position P xs = Some i \<Longrightarrow> i < length xs \<and> P (xs ! i) \<and> (\<forall>j<i. \<not> P (xs ! j))"
proof (induction xs arbitrary: i)
  case Nil
  then show ?case by simp
next
  case (Cons x xs)
  show ?case
  proof (cases "P x")
    case True
    with Cons.prems show ?thesis by auto
  next
    case False
    with Cons.prems obtain k where k: "position P xs = Some k" and i: "i = Suc k"
      by auto
    from Cons.IH [OF k] show ?thesis
      unfolding i using False by (auto simp: less_Suc_eq_0_disj)
  qed
qed

text \<open>\<open>Iterator::position\<close> with a predicate that may panic (\<open>None\<close>).\<close>

fun position_opt :: "('a \<Rightarrow> bool option) \<Rightarrow> 'a list \<Rightarrow> nat option option" where
  "position_opt P [] = Some None"
| "position_opt P (x # xs) =
     (case P x of
       None \<Rightarrow> None
     | Some True \<Rightarrow> Some (Some 0)
     | Some False \<Rightarrow> map_option (map_option Suc) (position_opt P xs))"

lemma position_opt_total:
  "(\<And>x. x \<in> set xs \<Longrightarrow> P x = Some (Q x)) \<Longrightarrow> position_opt P xs = Some (position Q xs)"
  by (induction xs) auto

text \<open>\<open>find_map(|x| seen.replace(x))\<close>: the first element that occurred before.\<close>

fun first_dup :: "'a set \<Rightarrow> 'a list \<Rightarrow> 'a option" where
  "first_dup seen [] = None"
| "first_dup seen (x # xs) = (if x \<in> seen then Some x else first_dup (insert x seen) xs)"

lemma first_dup_None: "first_dup seen xs = None \<longleftrightarrow> distinct xs \<and> set xs \<inter> seen = {}"
  by (induction xs arbitrary: seen) auto

text \<open>\<open>iter.all(|x| seen.insert(x))\<close>.\<close>

fun all_fresh :: "'a set \<Rightarrow> 'a list \<Rightarrow> bool" where
  "all_fresh seen [] = True"
| "all_fresh seen (x # xs) = (x \<notin> seen \<and> all_fresh (insert x seen) xs)"

lemma all_fresh_iff: "all_fresh seen xs \<longleftrightarrow> distinct xs \<and> set xs \<inter> seen = {}"
  by (induction xs arbitrary: seen) auto

text \<open>Rust's \<open>Ordering\<close>, and \<open>cmp\<close> on a linear order.\<close>

datatype ordering = Less | Equal | Greater

definition cmp_of :: "'a::linorder \<Rightarrow> 'a \<Rightarrow> ordering" where
  "cmp_of a b = (if a < b then Less else if a = b then Equal else Greater)"

fun ord_reverse :: "ordering \<Rightarrow> ordering" where
  "ord_reverse Less = Greater"
| "ord_reverse Equal = Equal"
| "ord_reverse Greater = Less"

lemma cmp_of_simps [simp]:
  "cmp_of a b = Less \<longleftrightarrow> a < b"
  "cmp_of a b = Equal \<longleftrightarrow> a = b"
  "cmp_of a b = Greater \<longleftrightarrow> b < a"
  by (auto simp: cmp_of_def)

lemma cmp_of_reverse: "cmp_of b a = ord_reverse (cmp_of a b)"
  by (auto simp: cmp_of_def)

section \<open>Ordered maps\<close>

text \<open>A \<open>BTreeMap\<close>, or a column of the key-value store under iteration: the entries in the order of their
  keys. Iterating, ranges and splitting off are filters on the list.\<close>

definition btree_ok :: "('k::linorder \<times> 'v) list \<Rightarrow> bool" where
  "btree_ok m \<longleftrightarrow> sorted_wrt (<) (map fst m)"

fun btree_insert :: "'k::linorder \<Rightarrow> 'v \<Rightarrow> ('k \<times> 'v) list \<Rightarrow> ('k \<times> 'v) list" where
  "btree_insert k v [] = [(k, v)]"
| "btree_insert k v ((j, w) # rest) =
     (if k < j then (k, v) # (j, w) # rest
      else if k = j then (k, v) # rest
      else (j, w) # btree_insert k v rest)"

definition btree_remove :: "'k \<Rightarrow> ('k \<times> 'v) list \<Rightarrow> ('k \<times> 'v) list" where
  "btree_remove k m = filter (\<lambda>(j, _). j \<noteq> k) m"

definition btree_split_off :: "'k::linorder \<Rightarrow> ('k \<times> 'v) list \<Rightarrow> ('k \<times> 'v) list" where
  "btree_split_off k m = filter (\<lambda>(j, _). k \<le> j) m"

lemma map_of_btree_insert [simp]: "map_of (btree_insert k v m) = (map_of m)(k \<mapsto> v)"
  by (induction k v m rule: btree_insert.induct) auto

lemma map_of_filter_key: "map_of (filter (\<lambda>(j, _). P j) m) k = (if P k then map_of m k else None)"
  by (induction m) auto

lemma map_of_btree_remove [simp]: "map_of (btree_remove k m) = (map_of m)(k := None)"
  by (auto simp: btree_remove_def map_of_filter_key [of "\<lambda>j. j \<noteq> k"])

lemma map_of_btree_split_off: "map_of (btree_split_off k m) j = (if k \<le> j then map_of m j else None)"
  by (simp add: btree_split_off_def map_of_filter_key)

lemma keys_btree_insert: "fst ` set (btree_insert k v m) = insert k (fst ` set m)"
  by (induction k v m rule: btree_insert.induct) auto

lemma btree_ok_insert: "btree_ok m \<Longrightarrow> btree_ok (btree_insert k v m)"
proof (induction k v m rule: btree_insert.induct)
  case (2 k v j w rest)
  then have "\<forall>x\<in>insert k (fst ` set rest). \<not> k < j \<and> k \<noteq> j \<longrightarrow> j < x"
    by (auto simp: btree_ok_def)
  then show ?case using 2 keys_btree_insert [of k v rest] by (auto simp: btree_ok_def)
qed (simp add: btree_ok_def)

lemma btree_ok_filter: "btree_ok m \<Longrightarrow> btree_ok (filter P m)"
  by (induction m) (auto simp: btree_ok_def)

lemma btree_ok_remove: "btree_ok m \<Longrightarrow> btree_ok (btree_remove k m)"
  and btree_ok_split_off: "btree_ok m \<Longrightarrow> btree_ok (btree_split_off k m)"
  by (simp_all add: btree_remove_def btree_split_off_def btree_ok_filter)

lemma btree_in_set: "btree_ok m \<Longrightarrow> (k, v) \<in> set m \<longleftrightarrow> map_of m k = Some v"
  by (auto simp: btree_ok_def strict_sorted_iff intro!: map_of_is_SomeI dest: map_of_SomeD)

lemma btree_insert_append:
  assumes "\<And>j w. (j, w) \<in> set m \<Longrightarrow> j < k"
  shows "btree_insert k v m = m @ [(k, v)]"
  using assms by (induction m) (fastforce simp: not_less_iff_gr_or_eq)+

section \<open>Verifiers\<close>

text \<open>
  The contract of a verifier: it accepts exactly the targets that satisfy its rule. Verifiers are
  run one after the other or over every element of a list; both compositions are verifiers.
\<close>

locale verifier =
  fixes verify :: "'a \<Rightarrow> 'e + unit" and rule :: "'a \<Rightarrow> bool"
  assumes accepts: "verify x = Inr () \<longleftrightarrow> rule x"
begin

lemma rejects: "\<not> rule x \<longleftrightarrow> (\<exists>e. verify x = Inl e)"
  by (cases "verify x") (use accepts [of x] in auto)

lemma batch_accepts: "try_each verify xs = Inr () \<longleftrightarrow> (\<forall>x\<in>set xs. rule x)"
  by (simp add: try_each_Inr accepts)

lemma batch_rejects_first:
  assumes "try_each verify xs = Inl e"
  obtains i where "i < length xs" "\<not> rule (xs ! i)" "verify (xs ! i) = Inl e" "\<forall>j<i. rule (xs ! j)"
proof -
  obtain i where i: "i < length xs" "verify (xs ! i) = Inl e" "\<forall>j<i. verify (xs ! j) = Inr ()"
    using assms by (auto simp: try_each_Inl)
  then show thesis using that [of i] accepts rejects by blast
qed

end

locale verifier_seq = first: verifier verify1 rule1 + second: verifier verify2 rule2
  for verify1 :: "'a \<Rightarrow> 'e + unit" and rule1 and verify2 :: "'a \<Rightarrow> 'e + unit" and rule2

sublocale verifier_seq \<subseteq> both: verifier "\<lambda>x. r_then (verify1 x) (verify2 x)" "\<lambda>x. rule1 x \<and> rule2 x"
  by unfold_locales (simp add: r_then_Inr first.accepts second.accepts)

end
