(* ===== verification/Capacity.thy ===== *)
theory Capacity
  imports Prelude
begin

text \<open>
  \<open>util/occupied-capacity/core/src/units.rs\<close>: CKB amounts (\<open>Capacity\<close>, counted in
  shannons as a \<open>u64\<close>), their checked arithmetic and \<open>Ratio\<close>; and
  \<open>util/types/src/core/fee_rate.rs\<close>: fee rates in shannons per kilo-weight. The lemmas
  characterise every operation by the natural numbers the amounts stand for, on the success and
  on the overflow branch.
\<close>

section \<open>Capacity\<close>

datatype capacity = Capacity (as_u64: u64)

record Ratio =
  numer :: u64
  denom :: u64

datatype capacity_error = Overflow

instantiation capacity :: linorder
begin

definition less_eq_capacity :: "capacity \<Rightarrow> capacity \<Rightarrow> bool" where
  "less_eq_capacity a b \<longleftrightarrow> as_u64 a \<le> as_u64 b"

definition less_capacity :: "capacity \<Rightarrow> capacity \<Rightarrow> bool" where
  "less_capacity a b \<longleftrightarrow> as_u64 a < as_u64 b"

instance
  by standard (auto simp: less_eq_capacity_def less_capacity_def intro: capacity.expand)

end

definition BYTE_SHANNONS :: u64 where
  "BYTE_SHANNONS = 100000000"

definition cap_zero :: capacity where
  "cap_zero = Capacity 0"

definition cap_one :: capacity where
  "cap_one = Capacity 1"

definition shannons :: "u64 \<Rightarrow> capacity" where
  "shannons val = Capacity val"

definition cap_bytes :: "usize \<Rightarrow> capacity_error + capacity" where
  "cap_bytes val = ok_or Overflow (map_option shannons (checked_mul val BYTE_SHANNONS))"

definition safe_add :: "capacity \<Rightarrow> capacity \<Rightarrow> capacity_error + capacity" where
  "safe_add self rhs = ok_or Overflow (map_option shannons (checked_add (as_u64 self) (as_u64 rhs)))"

definition safe_sub :: "capacity \<Rightarrow> capacity \<Rightarrow> capacity_error + capacity" where
  "safe_sub self rhs = ok_or Overflow (map_option shannons (checked_sub (as_u64 self) (as_u64 rhs)))"

definition safe_mul :: "capacity \<Rightarrow> capacity \<Rightarrow> capacity_error + capacity" where
  "safe_mul self rhs = ok_or Overflow (map_option shannons (checked_mul (as_u64 self) (as_u64 rhs)))"

definition safe_mul_ratio :: "capacity \<Rightarrow> Ratio \<Rightarrow> capacity_error + capacity" where
  "safe_mul_ratio self ratio =
     ok_or Overflow
       (map_option shannons
         (Option.bind (checked_mul (as_u64 self) (numer ratio))
           (\<lambda>ret. checked_div ret (denom ratio))))"

text \<open>\<open>IntoCapacity\<close>: the narrower integers are widened to \<open>u64\<close>.\<close>

definition into_capacity :: "'a::len word \<Rightarrow> capacity" where
  "into_capacity v = shannons (ucast v)"

abbreviation cap_nat :: "capacity \<Rightarrow> nat" where
  "cap_nat c \<equiv> unat (as_u64 c)"

named_theorems cap_simps \<open>capacity arithmetic read on natural numbers\<close>

lemma cap_nat_shannons [simp]: "as_u64 (shannons v) = v"
  by (simp add: shannons_def)

lemma shannons_inject [simp]: "shannons a = shannons b \<longleftrightarrow> a = b"
  by (simp add: shannons_def)

lemma cap_nat_const [simp]: "as_u64 cap_zero = 0" "as_u64 cap_one = 1"
  by (simp_all add: cap_zero_def cap_one_def)

lemma cap_nat_eq_iff: "a = b \<longleftrightarrow> cap_nat a = cap_nat b"
  by (metis capacity.expand word_unat_eq_iff)

lemma cap_le_iff [cap_simps]: "a \<le> b \<longleftrightarrow> cap_nat a \<le> cap_nat b"
  by (simp add: less_eq_capacity_def word_le_nat_alt)

lemma cap_less_iff [cap_simps]: "a < b \<longleftrightarrow> cap_nat a < cap_nat b"
  by (simp add: less_capacity_def word_less_nat_alt)

lemma cap_nat_bound: "cap_nat c < 18446744073709551616"
  using unat_lt2p [of "as_u64 c"] by simp

lemma eq_shannons_iff: "c = shannons v \<longleftrightarrow> as_u64 c = v"
  by (cases c) (simp add: shannons_def)

lemma safe_add_Inr [cap_simps]: "safe_add a b = Inr c \<longleftrightarrow> cap_nat c = cap_nat a + cap_nat b"
  by (auto simp: safe_add_def checked_add_Some eq_shannons_iff)
    (metis capacity.exhaust_sel shannons_def)+

lemma safe_add_Inl [cap_simps]: "safe_add a b = Inl e \<longleftrightarrow> 2 ^ 64 \<le> cap_nat a + cap_nat b"
  by (cases e) (auto simp: safe_add_def checked_add_None)

lemma safe_sub_Inr [cap_simps]: "safe_sub a b = Inr c \<longleftrightarrow> cap_nat a = cap_nat b + cap_nat c"
  by (auto simp: safe_sub_def checked_sub_Some eq_shannons_iff)
    (metis capacity.exhaust_sel shannons_def)+

lemma safe_sub_Inl [cap_simps]: "safe_sub a b = Inl e \<longleftrightarrow> cap_nat a < cap_nat b"
  by (cases e) (auto simp: safe_sub_def checked_sub_None)

lemma safe_mul_Inr [cap_simps]: "safe_mul a b = Inr c \<longleftrightarrow> cap_nat c = cap_nat a * cap_nat b"
  by (auto simp: safe_mul_def checked_mul_Some eq_shannons_iff)
    (metis capacity.exhaust_sel shannons_def)+

lemma safe_mul_Inl [cap_simps]: "safe_mul a b = Inl e \<longleftrightarrow> 2 ^ 64 \<le> cap_nat a * cap_nat b"
  by (cases e) (auto simp: safe_mul_def checked_mul_None)

lemma cap_bytes_Inr [cap_simps]: "cap_bytes n = Inr c \<longleftrightarrow> cap_nat c = unat n * 100000000"
  by (auto simp: cap_bytes_def BYTE_SHANNONS_def checked_mul_Some eq_shannons_iff)
    (metis capacity.exhaust_sel shannons_def)+

lemma cap_bytes_Inl [cap_simps]: "cap_bytes n = Inl e \<longleftrightarrow> 2 ^ 64 \<le> unat n * 100000000"
  by (cases e) (auto simp: cap_bytes_def BYTE_SHANNONS_def checked_mul_None)

lemma safe_mul_ratio_Inr [cap_simps]:
  "safe_mul_ratio a r = Inr c \<longleftrightarrow>
     cap_nat a * unat (numer r) < 2 ^ 64 \<and> denom r \<noteq> 0 \<and>
     cap_nat c = cap_nat a * unat (numer r) div unat (denom r)"
  by (auto simp: safe_mul_ratio_def checked_mul_def checked_div_def eq_shannons_iff unat_div_distrib
        unat_word_ariths cap_nat_eq_iff bind_eq_Some_conv split: if_splits)

text \<open>Undoing an addition, and the order of amounts in a sum.\<close>

lemma safe_add_sub_cancel:
  assumes "safe_add a b = Inr c"
  shows "safe_sub c b = Inr a"
  using assms by (simp add: cap_simps)

lemma safe_add_mono: "safe_add a b = Inr c \<Longrightarrow> a \<le> c"
  by (simp add: cap_simps)

text \<open>A fold of \<open>safe_add\<close>, the shape in which the verifiers and the DAO sum capacities.\<close>

definition cap_sum :: "capacity list \<Rightarrow> capacity_error + capacity" where
  "cap_sum cs = try_fold safe_add cap_zero cs"

lemma try_fold_safe_add_Inr:
  "try_fold safe_add a cs = Inr c \<longleftrightarrow> cap_nat c = cap_nat a + sum_list (map cap_nat cs)"
proof (induction cs arbitrary: a)
  case Nil
  then show ?case by (auto simp: cap_nat_eq_iff)
next
  case (Cons x cs)
  show ?case
  proof (cases "safe_add a x")
    case (Inl e)
    then have "2 ^ 64 \<le> cap_nat a + cap_nat x" by (simp add: cap_simps)
    then have "cap_nat c \<noteq> cap_nat a + sum_list (map cap_nat (x # cs))"
      using cap_nat_bound [of c] by simp
    then show ?thesis using Inl by simp
  next
    case (Inr b)
    then have "cap_nat b = cap_nat a + cap_nat x" by (simp add: cap_simps)
    then show ?thesis using Inr Cons.IH [of b] by (simp add: add.assoc)
  qed
qed

lemma cap_sum_Inr [cap_simps]: "cap_sum cs = Inr c \<longleftrightarrow> cap_nat c = sum_list (map cap_nat cs)"
  by (simp add: cap_sum_def try_fold_safe_add_Inr)

section \<open>Fee rates\<close>

datatype FeeRate = FeeRate (fee_rate_u64: u64)

instantiation FeeRate :: linorder
begin

definition less_eq_FeeRate :: "FeeRate \<Rightarrow> FeeRate \<Rightarrow> bool" where
  "less_eq_FeeRate a b \<longleftrightarrow> fee_rate_u64 a \<le> fee_rate_u64 b"

definition less_FeeRate :: "FeeRate \<Rightarrow> FeeRate \<Rightarrow> bool" where
  "less_FeeRate a b \<longleftrightarrow> fee_rate_u64 a < fee_rate_u64 b"

instance
  by standard (auto simp: less_eq_FeeRate_def less_FeeRate_def intro: FeeRate.expand)

end

definition KW :: u64 where
  "KW = 1000"

definition fee_rate_calculate :: "capacity \<Rightarrow> u64 \<Rightarrow> FeeRate" where
  "fee_rate_calculate fee weight =
     (if weight = 0 then FeeRate 0 else FeeRate (saturating_mul (as_u64 fee) KW div weight))"

definition fee_rate_fee :: "FeeRate \<Rightarrow> u64 \<Rightarrow> capacity" where
  "fee_rate_fee self weight = shannons (saturating_mul (fee_rate_u64 self) weight div KW)"

lemma fee_rate_calculate_nat:
  "weight \<noteq> 0 \<Longrightarrow>
   unat (fee_rate_u64 (fee_rate_calculate fee weight)) =
     min (cap_nat fee * 1000) (2 ^ 64 - 1) div unat weight"
  by (simp add: fee_rate_calculate_def KW_def unat_div_distrib unat_saturating_mul)

lemma fee_rate_fee_nat:
  "cap_nat (fee_rate_fee r weight) = min (unat (fee_rate_u64 r) * unat weight) (2 ^ 64 - 1) div 1000"
  by (simp add: fee_rate_fee_def KW_def unat_div_distrib unat_saturating_mul)

text \<open>The fee asked back from a calculated rate never exceeds the fee the rate came from.\<close>

lemma fee_rate_round_trip:
  assumes "weight \<noteq> 0"
  shows "fee_rate_fee (fee_rate_calculate fee weight) weight \<le> fee"
proof -
  let ?m = "min (cap_nat fee * 1000) (2 ^ 64 - 1)"
  have "?m div unat weight * unat weight \<le> ?m"
    by (rule div_times_less_eq_dividend)
  then have "min (?m div unat weight * unat weight) (2 ^ 64 - 1) div 1000 \<le> cap_nat fee * 1000 div 1000"
    by (intro div_le_mono) linarith
  then show ?thesis
    using assms by (simp add: cap_le_iff fee_rate_fee_nat fee_rate_calculate_nat)
qed

text \<open>A higher fee for the same weight never has a lower rate.\<close>

lemma fee_rate_mono:
  assumes "fee \<le> fee'"
  shows "fee_rate_calculate fee weight \<le> fee_rate_calculate fee' weight"
proof (cases "weight = 0")
  case True
  then show ?thesis by (simp add: fee_rate_calculate_def)
next
  case False
  have "min (cap_nat fee * 1000) (2 ^ 64 - 1) \<le> min (cap_nat fee' * 1000) (2 ^ 64 - 1)"
    using assms by (simp add: cap_le_iff)
  then show ?thesis
    using False by (simp add: less_eq_FeeRate_def word_le_nat_alt fee_rate_calculate_nat div_le_mono)
qed

section \<open>Properties\<close>

text \<open>C12. The fee a calculated fee rate asks for the same weight never exceeds the fee the rate
  was calculated from, and a higher fee never lowers the rate.\<close>

theorem fee_rate_consistent:
  assumes "weight \<noteq> 0" and "fee \<le> fee'"
  shows "fee_rate_fee (fee_rate_calculate fee weight) weight \<le> fee \<and>
         fee_rate_calculate fee weight \<le> fee_rate_calculate fee' weight"
  using fee_rate_round_trip [OF assms(1)] fee_rate_mono [OF assms(2)] by blast

theorem fee_rate_consistent_witness:
  "fee_rate_fee (fee_rate_calculate (Capacity 999) 7) 7 \<le> Capacity 999 \<and>
   fee_rate_calculate (Capacity 999) 7 \<le> fee_rate_calculate (Capacity 1000) 7"
  by (rule fee_rate_consistent) (simp_all add: less_eq_capacity_def)

end
