(* ===== verification/Rational.thy ===== *)
theory Rational
  imports Prelude Complex_Main
begin

text \<open>
  \<open>util/rational/src/lib.rs\<close>: ratios of two unsigned 256-bit integers. The 256-bit integers
  come from the third-party crate \<open>numext-fixed-uint\<close>, so its arithmetic is a parameter
  \<open>L\<close> of every definition (a record of its operators), and \<open>u256_ok L\<close> states what its
  documentation promises: each operator returns the mathematical result when that result fits in
  256 bits. Nothing is assumed about a result that does not fit.

  The lemmas refine the ratios to HOL's rational numbers: under \<open>u256_ok\<close> and a condition
  that the intermediate values fit, every operator computes the corresponding operation on
  \<open>rat_val\<close>, the ratio's value.
\<close>

type_synonym u256 = "256 word"

record u256_lib =
  u_add :: "u256 \<Rightarrow> u256 \<Rightarrow> u256"
  u_sub :: "u256 \<Rightarrow> u256 \<Rightarrow> u256"
  u_mul :: "u256 \<Rightarrow> u256 \<Rightarrow> u256"
  u_div :: "u256 \<Rightarrow> u256 \<Rightarrow> u256"
  u_gcd :: "u256 \<Rightarrow> u256 \<Rightarrow> u256"
  u_overflowing_sub :: "u256 \<Rightarrow> u256 \<Rightarrow> u256 \<times> bool"

lemma unat_ucast_u256 [simp]: "unat (ucast a :: u256) = unat a" for a :: u64
proof -
  have "unat a < 2 ^ 256"
    using unat_lt2p [of a] by simp
  then show ?thesis
    by (simp add: unsigned_ucast_eq take_bit_nat_eq_self)
qed

definition u256_ok :: "u256_lib \<Rightarrow> bool" where
  "u256_ok L \<longleftrightarrow>
     (\<forall>a b. unat a + unat b < 2 ^ 256 \<longrightarrow> unat (u_add L a b) = unat a + unat b) \<and>
     (\<forall>a b. unat b \<le> unat a \<longrightarrow> unat (u_sub L a b) = unat a - unat b) \<and>
     (\<forall>a b. unat a * unat b < 2 ^ 256 \<longrightarrow> unat (u_mul L a b) = unat a * unat b) \<and>
     (\<forall>a b. unat b \<noteq> 0 \<longrightarrow> unat (u_div L a b) = unat a div unat b) \<and>
     (\<forall>a b. unat (u_gcd L a b) = gcd (unat a) (unat b)) \<and>
     (\<forall>a b. u_overflowing_sub L a b = (a - b, unat a < unat b))"

text \<open>The operators of 256-bit machine words satisfy the hypothesis.\<close>

definition u256_words :: u256_lib where
  "u256_words = \<lparr>u_add = (+), u_sub = (-), u_mul = (*), u_div = (div),
     u_gcd = (\<lambda>a b. word_of_nat (gcd (unat a) (unat b))),
     u_overflowing_sub = (\<lambda>a b. (a - b, unat a < unat b))\<rparr>"

section \<open>The ratios\<close>

record RationalU256 =
  r_numer :: u256
  r_denom :: u256

definition rat_new_raw :: "u256 \<Rightarrow> u256 \<Rightarrow> RationalU256" where
  "rat_new_raw numer denom = \<lparr>r_numer = numer, r_denom = denom\<rparr>"

definition rat_reduce :: "u256_lib \<Rightarrow> RationalU256 \<Rightarrow> RationalU256" where
  "rat_reduce L r =
     (let g = u_gcd L (r_numer r) (r_denom r)
      in \<lparr>r_numer = u_div L (r_numer r) g, r_denom = u_div L (r_denom r) g\<rparr>)"

text \<open>\<open>new\<close> panics on a zero denominator.\<close>

definition rat_new :: "u256_lib \<Rightarrow> u256 \<Rightarrow> u256 \<Rightarrow> RationalU256 option" where
  "rat_new L numer denom =
     (if denom = 0 then None else Some (rat_reduce L (rat_new_raw numer denom)))"

definition rat_from_u256 :: "u256 \<Rightarrow> RationalU256" where
  "rat_from_u256 t = rat_new_raw t 1"

definition rat_is_zero :: "RationalU256 \<Rightarrow> bool" where
  "rat_is_zero r \<longleftrightarrow> r_numer r = 0"

definition rat_zero :: RationalU256 where
  "rat_zero = rat_new_raw 0 1"

definition rat_one :: RationalU256 where
  "rat_one = rat_new_raw 1 1"

definition rat_into_u256 :: "u256_lib \<Rightarrow> RationalU256 \<Rightarrow> u256" where
  "rat_into_u256 L r = u_div L (r_numer r) (r_denom r)"

text \<open>The two numerators over the least common denominator, as \<open>add\<close>, \<open>sub\<close> and \<open>saturating_sub\<close> compute them.\<close>

definition rat_align :: "u256_lib \<Rightarrow> RationalU256 \<Rightarrow> RationalU256 \<Rightarrow> u256 \<times> u256 \<times> u256" where
  "rat_align L self rhs =
     (let g = u_gcd L (r_denom self) (r_denom rhs);
          lc = u_mul L (r_denom self) (u_div L (r_denom rhs) g)
      in (u_mul L (r_numer self) (u_div L lc (r_denom self)),
          u_mul L (r_numer rhs) (u_div L lc (r_denom rhs)),
          lc))"

definition rat_add :: "u256_lib \<Rightarrow> RationalU256 \<Rightarrow> RationalU256 \<Rightarrow> RationalU256 option" where
  "rat_add L self rhs =
     (if r_denom self = r_denom rhs
      then rat_new L (u_add L (r_numer self) (r_numer rhs)) (r_denom self)
      else (case rat_align L self rhs of
        (lhs_numer, rhs_numer, lc) \<Rightarrow> rat_new L (u_add L lhs_numer rhs_numer) lc))"

definition rat_sub :: "u256_lib \<Rightarrow> RationalU256 \<Rightarrow> RationalU256 \<Rightarrow> RationalU256 option" where
  "rat_sub L self rhs =
     (if r_denom self = r_denom rhs
      then rat_new L (u_sub L (r_numer self) (r_numer rhs)) (r_denom self)
      else (case rat_align L self rhs of
        (lhs_numer, rhs_numer, lc) \<Rightarrow> rat_new L (u_sub L lhs_numer rhs_numer) lc))"

definition rat_saturating_sub :: "u256_lib \<Rightarrow> RationalU256 \<Rightarrow> RationalU256 \<Rightarrow> RationalU256 option" where
  "rat_saturating_sub L self rhs =
     (if r_denom self = r_denom rhs
      then (case u_overflowing_sub L (r_numer self) (r_numer rhs) of
        (numer, overflowing) \<Rightarrow> if overflowing then Some rat_zero else rat_new L numer (r_denom self))
      else (case rat_align L self rhs of
        (lhs_numer, rhs_numer, lc) \<Rightarrow>
          (case u_overflowing_sub L lhs_numer rhs_numer of
            (numer, overflowing) \<Rightarrow> if overflowing then Some rat_zero else rat_new L numer lc)))"

definition rat_saturating_sub_u256 :: "u256_lib \<Rightarrow> RationalU256 \<Rightarrow> u256 \<Rightarrow> RationalU256" where
  "rat_saturating_sub_u256 L self rhs =
     (case u_overflowing_sub L (r_numer self) (u_mul L (r_denom self) rhs) of
       (numer, overflowing) \<Rightarrow> if overflowing then rat_zero else rat_new_raw numer (r_denom self))"

definition rat_mul :: "u256_lib \<Rightarrow> RationalU256 \<Rightarrow> RationalU256 \<Rightarrow> RationalU256" where
  "rat_mul L self rhs =
     (let gcd_ad = u_gcd L (r_numer self) (r_denom rhs);
          gcd_bc = u_gcd L (r_denom self) (r_numer rhs)
      in rat_new_raw
           (u_mul L (u_div L (r_numer self) gcd_ad) (u_div L (r_numer rhs) gcd_bc))
           (u_mul L (u_div L (r_denom self) gcd_bc) (u_div L (r_denom rhs) gcd_ad)))"

definition rat_mul_u256 :: "u256_lib \<Rightarrow> RationalU256 \<Rightarrow> u256 \<Rightarrow> RationalU256" where
  "rat_mul_u256 L self rhs =
     (let g = u_gcd L (r_denom self) rhs
      in rat_new_raw (u_mul L (r_numer self) (u_div L rhs g)) (u_div L (r_denom self) g))"

definition rat_div :: "u256_lib \<Rightarrow> RationalU256 \<Rightarrow> RationalU256 \<Rightarrow> RationalU256" where
  "rat_div L self rhs =
     (let gcd_ac = u_gcd L (r_numer self) (r_numer rhs);
          gcd_bd = u_gcd L (r_denom self) (r_denom rhs)
      in rat_new_raw
           (u_mul L (u_div L (r_numer self) gcd_ac) (u_div L (r_denom rhs) gcd_bd))
           (u_mul L (u_div L (r_denom self) gcd_bd) (u_div L (r_numer rhs) gcd_ac)))"

definition rat_div_u256 :: "u256_lib \<Rightarrow> RationalU256 \<Rightarrow> u256 \<Rightarrow> RationalU256" where
  "rat_div_u256 L self rhs =
     (let g = u_gcd L (r_numer self) rhs
      in rat_new_raw (u_div L (r_numer self) g) (u_mul L (r_denom self) (u_div L rhs g)))"

definition rat_add_u256 :: "u256_lib \<Rightarrow> RationalU256 \<Rightarrow> u256 \<Rightarrow> RationalU256" where
  "rat_add_u256 L self rhs =
     rat_new_raw (u_add L (r_numer self) (u_mul L (r_denom self) rhs)) (r_denom self)"

definition rat_sub_u256 :: "u256_lib \<Rightarrow> RationalU256 \<Rightarrow> u256 \<Rightarrow> RationalU256" where
  "rat_sub_u256 L self rhs =
     rat_new_raw (u_sub L (r_numer self) (u_mul L (r_denom self) rhs)) (r_denom self)"

definition rat_cmp :: "u256_lib \<Rightarrow> RationalU256 \<Rightarrow> RationalU256 \<Rightarrow> ordering" where
  "rat_cmp L self other =
     (let g = u_gcd L (r_denom self) (r_denom other);
          lhs = u_mul L (r_numer self) (u_div L (r_denom other) g);
          rhs = u_mul L (r_numer other) (u_div L (r_denom self) g)
      in cmp_of lhs rhs)"

section \<open>Values\<close>

definition rat_wf :: "RationalU256 \<Rightarrow> bool" where
  "rat_wf r \<longleftrightarrow> r_denom r \<noteq> 0"

definition rat_val :: "RationalU256 \<Rightarrow> rat" where
  "rat_val r = of_nat (unat (r_numer r)) / of_nat (unat (r_denom r))"

abbreviation nn :: "RationalU256 \<Rightarrow> nat" where "nn r \<equiv> unat (r_numer r)"
abbreviation dd :: "RationalU256 \<Rightarrow> nat" where "dd r \<equiv> unat (r_denom r)"

text \<open>The values \<open>add\<close> and \<open>sub\<close> build on the way, read as natural numbers.\<close>

definition align_fits :: "RationalU256 \<Rightarrow> RationalU256 \<Rightarrow> bool" where
  "align_fits a b \<longleftrightarrow>
     lcm (dd a) (dd b) < 2 ^ 256 \<and>
     nn a * (lcm (dd a) (dd b) div dd a) + nn b * (lcm (dd a) (dd b) div dd b) < 2 ^ 256"

lemma u256_okD:
  assumes "u256_ok L"
  shows u_add_nat: "unat a + unat b < 2 ^ 256 \<Longrightarrow> unat (u_add L a b) = unat a + unat b"
    and u_sub_nat: "unat b \<le> unat a \<Longrightarrow> unat (u_sub L a b) = unat a - unat b"
    and u_mul_nat: "unat a * unat b < 2 ^ 256 \<Longrightarrow> unat (u_mul L a b) = unat a * unat b"
    and u_div_nat: "unat b \<noteq> 0 \<Longrightarrow> unat (u_div L a b) = unat a div unat b"
    and u_gcd_nat: "unat (u_gcd L a b) = gcd (unat a) (unat b)"
    and u_osub: "u_overflowing_sub L a b = (a - b, unat a < unat b)"
  using assms unfolding u256_ok_def by blast+

lemma u256_words_ok: "u256_ok u256_words"
proof -
  have gcd_lt: "gcd (unat a) (unat b) < 2 ^ 256" for a b :: u256
  proof (cases "unat a = 0")
    case True
    then show ?thesis using unat_lt2p [of b] by simp
  next
    case False
    then have "gcd (unat a) (unat b) \<le> unat a" by (simp add: gcd_le1_nat)
    then show ?thesis using unat_lt2p [of a] by simp
  qed
  then have "unat (word_of_nat (gcd (unat a) (unat b)) :: u256) = gcd (unat a) (unat b)" for a b :: u256
    by (simp add: unat_of_nat)
  then show ?thesis
    by (auto simp: u256_ok_def u256_words_def unat_word_ariths(1,2) unat_sub unat_div_distrib word_le_nat_alt)
qed

lemma rat_wf_dd: "rat_wf r \<longleftrightarrow> dd r \<noteq> 0"
  by (simp add: rat_wf_def unat_zero_iff_word)

lemma rat_wf_const [simp]: "rat_wf rat_zero" "rat_wf rat_one" "rat_wf (rat_from_u256 t)"
  by (simp_all add: rat_wf_def rat_zero_def rat_one_def rat_from_u256_def rat_new_raw_def)

lemma rat_val_const [simp]:
  "rat_val rat_zero = 0" "rat_val rat_one = 1" "rat_val (rat_from_u256 t) = of_nat (unat t)"
  by (simp_all add: rat_val_def rat_zero_def rat_one_def rat_from_u256_def rat_new_raw_def)

lemma of_nat_div_exact: "d dvd n \<Longrightarrow> d \<noteq> 0 \<Longrightarrow> (of_nat (n div d) :: rat) = of_nat n / of_nat d"
  by (metis nonzero_mult_div_cancel_left of_nat_eq_0_iff of_nat_mult dvd_mult_div_cancel)

text \<open>\<open>new\<close> puts the ratio into lowest terms and keeps its value.\<close>

lemma rat_new_val:
  assumes L: "u256_ok L" and d: "d \<noteq> 0"
  shows "\<exists>r. rat_new L n d = Some r \<and> rat_wf r \<and> coprime (nn r) (dd r) \<and>
             rat_val r = of_nat (unat n) / of_nat (unat d)"
proof -
  let ?g = "gcd (unat n) (unat d)"
  let ?r = "rat_reduce L (rat_new_raw n d)"
  have d0: "unat d \<noteq> 0" and g0: "?g \<noteq> 0"
    using d by (simp_all add: unat_zero_iff_word)
  have num: "nn ?r = unat n div ?g" and den: "dd ?r = unat d div ?g"
    using g0 by (simp_all add: rat_reduce_def rat_new_raw_def Let_def u_div_nat [OF L] u_gcd_nat [OF L])
  have "coprime (nn ?r) (dd ?r)"
    unfolding num den using d0 by (intro div_gcd_coprime) simp
  moreover have "dd ?r \<noteq> 0"
    unfolding den using d0 by (metis dvd_div_eq_0_iff gcd_dvd2)
  moreover have "rat_val ?r = of_nat (unat n) / of_nat (unat d)"
    unfolding rat_val_def num den using g0 by (simp add: of_nat_div_exact)
  ultimately show ?thesis
    using d by (simp add: rat_new_def rat_wf_dd)
qed

lemma rat_new_bounds:
  assumes L: "u256_ok L" and r: "rat_new L n d = Some r"
  shows "nn r \<le> unat n \<and> dd r \<le> unat d"
proof -
  have "unat d \<noteq> 0" and r': "r = rat_reduce L (rat_new_raw n d)"
    using r by (auto simp: rat_new_def unat_zero_iff_word split: if_splits)
  then have "gcd (unat n) (unat d) \<noteq> 0" by simp
  then show ?thesis
    by (simp add: r' rat_reduce_def rat_new_raw_def Let_def u_div_nat [OF L] u_gcd_nat [OF L])
qed

lemma lcm_as_product: "a * (b div gcd a b) = lcm a (b::nat)"
  by (simp add: lcm_nat_def div_mult_swap)

lemma rat_align_nat:
  assumes L: "u256_ok L" and wf: "rat_wf a" "rat_wf b" and fits: "align_fits a b"
    and eq: "rat_align L a b = (x, y, l)"
  shows "unat x = nn a * (lcm (dd a) (dd b) div dd a)"
    and "unat y = nn b * (lcm (dd a) (dd b) div dd b)"
    and "unat l = lcm (dd a) (dd b)"
    and "unat x + unat y < 2 ^ 256"
    and "(of_nat (unat x) :: rat) / of_nat (unat l) = rat_val a"
    and "(of_nat (unat y) :: rat) / of_nat (unat l) = rat_val b"
proof -
  let ?l = "lcm (dd a) (dd b)"
  have da: "dd a \<noteq> 0" and db: "dd b \<noteq> 0" and g0: "gcd (dd a) (dd b) \<noteq> 0"
    using wf by (auto simp: rat_wf_dd)
  have fits': "?l < 2 ^ 256" "nn a * (?l div dd a) + nn b * (?l div dd b) < 2 ^ 256"
    using fits by (simp_all add: align_fits_def)
  define lw where "lw = u_mul L (r_denom a) (u_div L (r_denom b) (u_gcd L (r_denom a) (r_denom b)))"
  have lw: "unat lw = ?l"
    using fits' g0 by (simp add: lw_def u_mul_nat [OF L] u_div_nat [OF L] u_gcd_nat [OF L] lcm_as_product)
  have xyl: "x = u_mul L (r_numer a) (u_div L lw (r_denom a))"
       "y = u_mul L (r_numer b) (u_div L lw (r_denom b))" "l = lw"
    using eq by (auto simp: rat_align_def Let_def lw_def)
  show l: "unat l = ?l" by (simp add: xyl lw)
  show x: "unat x = nn a * (?l div dd a)"
    using fits' da by (simp add: xyl u_mul_nat [OF L] u_div_nat [OF L] lw)
  show y: "unat y = nn b * (?l div dd b)"
    using fits' db by (simp add: xyl u_mul_nat [OF L] u_div_nat [OF L] lw)
  show "unat x + unat y < 2 ^ 256"
    using fits' by (simp add: x y)
  show "(of_nat (unat x) :: rat) / of_nat (unat l) = rat_val a"
    using da db by (simp add: x l rat_val_def of_nat_div_exact)
  show "(of_nat (unat y) :: rat) / of_nat (unat l) = rat_val b"
    using da db by (simp add: y l rat_val_def of_nat_div_exact)
qed

lemma align_fits_same_denom:
  assumes "r_denom a = r_denom b" "rat_wf a" "align_fits a b"
  shows "nn a + nn b < 2 ^ 256"
  using assms by (simp add: align_fits_def rat_wf_dd)

lemma rat_add_val:
  assumes L: "u256_ok L" and wf: "rat_wf a" "rat_wf b" and fits: "align_fits a b"
  shows "\<exists>c. rat_add L a b = Some c \<and> rat_wf c \<and> coprime (nn c) (dd c) \<and> rat_val c = rat_val a + rat_val b"
proof (cases "r_denom a = r_denom b")
  case True
  have "unat (u_add L (r_numer a) (r_numer b)) = nn a + nn b"
    using align_fits_same_denom [OF True wf(1) fits] by (rule u_add_nat [OF L])
  then show ?thesis
    using rat_new_val [OF L, of "r_denom a" "u_add L (r_numer a) (r_numer b)"] wf(1) True
    by (simp add: rat_add_def rat_wf_def rat_val_def add_divide_distrib)
next
  case False
  obtain x y l where al: "rat_align L a b = (x, y, l)"
    by (cases "rat_align L a b") auto
  note A = rat_align_nat [OF L wf fits al]
  have l0: "l \<noteq> 0"
    using A(3) wf by (auto simp: rat_wf_dd)
  have "unat (u_add L x y) = unat x + unat y"
    using A(4) by (rule u_add_nat [OF L])
  then have "(of_nat (unat (u_add L x y)) :: rat) / of_nat (unat l) = rat_val a + rat_val b"
    using A(5,6) by (simp add: add_divide_distrib)
  then show ?thesis
    using rat_new_val [OF L l0, of "u_add L x y"] False al by (simp add: rat_add_def)
qed

text \<open>Crude bounds that are enough for numbers far below 256 bits.\<close>

lemma lcm_bounds:
  assumes "(a::nat) \<noteq> 0" "b \<noteq> 0"
  shows "lcm a b \<le> a * b" "lcm a b div a \<le> b" "lcm a b div b \<le> a"
proof -
  show "lcm a b \<le> a * b" using assms by (intro dvd_imp_le) auto
  then show "lcm a b div a \<le> b" "lcm a b div b \<le> a"
    using assms by (metis div_le_mono nonzero_mult_div_cancel_left nonzero_mult_div_cancel_right)+
qed

lemma align_fits_small:
  assumes "rat_wf a" "rat_wf b" "dd a * dd b < 2 ^ 256" "nn a * dd b + nn b * dd a < 2 ^ 256"
  shows "align_fits a b"
proof -
  have d: "dd a \<noteq> 0" "dd b \<noteq> 0" using assms by (simp_all add: rat_wf_dd)
  note l = lcm_bounds [OF d]
  have "nn a * (lcm (dd a) (dd b) div dd a) + nn b * (lcm (dd a) (dd b) div dd b) \<le> nn a * dd b + nn b * dd a"
    using l(2,3) by (intro add_mono mult_le_mono) auto
  then show ?thesis using l(1) assms(3,4) unfolding align_fits_def by linarith
qed

lemma rat_add_bounds:
  assumes L: "u256_ok L" and wf: "rat_wf a" "rat_wf b" and fits: "align_fits a b" and c: "rat_add L a b = Some c"
  shows "dd c \<le> dd a * dd b" "nn c \<le> nn a * dd b + nn b * dd a"
proof -
  have d: "dd a \<noteq> 0" "dd b \<noteq> 0" using wf by (simp_all add: rat_wf_dd)
  note l = lcm_bounds [OF d]
  have "dd c \<le> dd a * dd b \<and> nn c \<le> nn a * dd b + nn b * dd a"
  proof (cases "r_denom a = r_denom b")
    case True
    have "unat (u_add L (r_numer a) (r_numer b)) = nn a + nn b"
      using align_fits_same_denom [OF True wf(1) fits] by (rule u_add_nat [OF L])
    then have "nn c \<le> nn a + nn b" "dd c \<le> dd a"
      using rat_new_bounds [OF L, of "u_add L (r_numer a) (r_numer b)" "r_denom a" c] c True
      by (simp_all add: rat_add_def)
    moreover have "nn a + nn b \<le> nn a * dd b + nn b * dd a" using d by (intro add_mono) auto
    moreover have "dd a \<le> dd a * dd b" using d by simp
    ultimately show ?thesis by linarith
  next
    case False
    obtain x y lc where al: "rat_align L a b = (x, y, lc)"
      by (cases "rat_align L a b") auto
    note A = rat_align_nat [OF L wf fits al]
    have "unat (u_add L x y) = unat x + unat y" using A(4) by (rule u_add_nat [OF L])
    moreover have "unat x \<le> nn a * dd b" "unat y \<le> nn b * dd a" using l A(1,2) by simp_all
    ultimately show ?thesis
      using rat_new_bounds [OF L, of "u_add L x y" lc c] c False al A(3) l(1) by (simp add: rat_add_def)
  qed
  then show "dd c \<le> dd a * dd b" "nn c \<le> nn a * dd b + nn b * dd a" by auto
qed

lemma quotient_le_iff:
  assumes "(of_nat x :: rat) / of_nat l = p" "(of_nat y :: rat) / of_nat l = q" "l \<noteq> 0"
  shows "p \<le> q \<longleftrightarrow> x \<le> y"
  unfolding assms(1,2) [symmetric] using assms(3) by (simp add: divide_le_cancel)

lemma rat_val_le_same_denom:
  assumes "r_denom a = r_denom b" "rat_wf a"
  shows "rat_val a \<le> rat_val b \<longleftrightarrow> nn a \<le> nn b"
  using assms by (intro quotient_le_iff [of _ "dd a"]) (auto simp: rat_val_def rat_wf_dd)

text \<open>Saturating subtraction is truncated subtraction of rationals.\<close>

lemma rat_saturating_sub_val:
  assumes L: "u256_ok L" and wf: "rat_wf a" "rat_wf b" and fits: "align_fits a b"
  shows "\<exists>c. rat_saturating_sub L a b = Some c \<and> rat_wf c \<and> rat_val c = max 0 (rat_val a - rat_val b)"
proof (cases "r_denom a = r_denom b")
  case same: True
  show ?thesis
  proof (cases "nn a < nn b")
    case True
    then have "rat_val a \<le> rat_val b"
      using rat_val_le_same_denom [OF same wf(1)] by simp
    then show ?thesis
      using same True by (simp add: rat_saturating_sub_def u_osub [OF L])
  next
    case False
    then have le: "nn b \<le> nn a" by simp
    then have sub: "unat (r_numer a - r_numer b) = nn a - nn b"
      by (simp add: unat_sub word_le_nat_alt)
    have "rat_val b \<le> rat_val a"
      using le same wf by (metis rat_val_le_same_denom)
    moreover have "(of_nat (nn a - nn b) :: rat) / of_nat (dd a) = rat_val a - rat_val b"
      using le same by (simp add: rat_val_def diff_divide_distrib)
    ultimately show ?thesis
      using rat_new_val [OF L, of "r_denom a" "r_numer a - r_numer b"] wf(1) same False
      by (auto simp: rat_saturating_sub_def u_osub [OF L] rat_wf_def sub)
  qed
next
  case diff: False
  obtain x y l where al: "rat_align L a b = (x, y, l)"
    by (cases "rat_align L a b") auto
  note A = rat_align_nat [OF L wf fits al]
  have l0: "l \<noteq> 0" "unat l \<noteq> 0"
    using A(3) wf by (auto simp: rat_wf_dd)
  show ?thesis
  proof (cases "unat x < unat y")
    case True
    then have "rat_val a \<le> rat_val b"
      using quotient_le_iff [OF A(5,6) l0(2)] by simp
    then show ?thesis
      using diff True al by (simp add: rat_saturating_sub_def u_osub [OF L])
  next
    case False
    then have le: "unat y \<le> unat x" by simp
    then have sub: "unat (x - y) = unat x - unat y"
      by (simp add: unat_sub word_le_nat_alt)
    have "rat_val b \<le> rat_val a"
      using quotient_le_iff [OF A(6,5) l0(2)] le by simp
    moreover have "(of_nat (unat (x - y)) :: rat) / of_nat (unat l) = rat_val a - rat_val b"
      using le A(5,6) by (simp add: sub diff_divide_distrib)
    ultimately show ?thesis
      using rat_new_val [OF L l0(1), of "x - y"] diff False al
      by (auto simp: rat_saturating_sub_def u_osub [OF L])
  qed
qed

text \<open>Multiplication and division, which cancel crosswise and do not reduce further.\<close>

definition mul_fits :: "RationalU256 \<Rightarrow> RationalU256 \<Rightarrow> bool" where
  "mul_fits a b \<longleftrightarrow> nn a * nn b < 2 ^ 256 \<and> dd a * dd b < 2 ^ 256"

lemma div_product_less: "a * b < (k::nat) \<Longrightarrow> (a div g) * (b div h) < k"
  by (meson div_le_dividend le_less_trans mult_le_mono)

lemma cross_cancel:
  fixes n d n' d' g h :: nat
  assumes "g dvd n" "g dvd d'" "h dvd d" "h dvd n'" "g \<noteq> 0" "h \<noteq> 0"
  shows "(of_nat ((n div g) * (n' div h)) :: rat) / of_nat ((d div h) * (d' div g)) =
         (of_nat n / of_nat d) * (of_nat n' / of_nat d')"
proof -
  obtain a b c e where "n = g * a" "d' = g * b" "d = h * c" "n' = h * e"
    using assms(1-4) by (auto elim!: dvdE)
  then show ?thesis using assms(5,6) by simp
qed

lemma rat_mul_val:
  assumes L: "u256_ok L" and wf: "rat_wf a" "rat_wf b" and fits: "mul_fits a b"
  shows "rat_wf (rat_mul L a b) \<and> rat_val (rat_mul L a b) = rat_val a * rat_val b"
proof -
  let ?g = "gcd (nn a) (dd b)" and ?h = "gcd (dd a) (nn b)"
  have d: "dd a \<noteq> 0" "dd b \<noteq> 0" using wf by (simp_all add: rat_wf_dd)
  then have g: "?g \<noteq> 0" and h: "?h \<noteq> 0" by simp_all
  have lt: "(nn a div ?g) * (nn b div ?h) < 2 ^ 256" "(dd a div ?h) * (dd b div ?g) < 2 ^ 256"
    using fits unfolding mul_fits_def by (blast intro: div_product_less)+
  have n: "nn (rat_mul L a b) = (nn a div ?g) * (nn b div ?h)"
    and e: "dd (rat_mul L a b) = (dd a div ?h) * (dd b div ?g)"
    using lt g h
    by (simp_all add: rat_mul_def rat_new_raw_def Let_def u_mul_nat [OF L] u_div_nat [OF L] u_gcd_nat [OF L])
  have "rat_val (rat_mul L a b) = rat_val a * rat_val b"
    unfolding rat_val_def n e by (rule cross_cancel) (use g h in simp_all)
  moreover have "dd (rat_mul L a b) \<noteq> 0"
    unfolding e using d by (simp add: dvd_div_eq_0_iff)
  ultimately show ?thesis by (simp add: rat_wf_dd)
qed

definition div_fits :: "RationalU256 \<Rightarrow> RationalU256 \<Rightarrow> bool" where
  "div_fits a b \<longleftrightarrow> nn a * dd b < 2 ^ 256 \<and> dd a * nn b < 2 ^ 256"

lemma rat_div_val:
  assumes L: "u256_ok L" and wf: "rat_wf a" "rat_wf b" and nz: "\<not> rat_is_zero b" and fits: "div_fits a b"
  shows "rat_wf (rat_div L a b) \<and> rat_val (rat_div L a b) = rat_val a / rat_val b"
proof -
  let ?g = "gcd (nn a) (nn b)" and ?h = "gcd (dd a) (dd b)"
  have d: "dd a \<noteq> 0" "dd b \<noteq> 0" "nn b \<noteq> 0"
    using wf nz by (simp_all add: rat_wf_dd rat_is_zero_def unat_zero_iff_word)
  then have g: "?g \<noteq> 0" and h: "?h \<noteq> 0" by simp_all
  have lt: "(nn a div ?g) * (dd b div ?h) < 2 ^ 256" "(dd a div ?h) * (nn b div ?g) < 2 ^ 256"
    using fits unfolding div_fits_def by (blast intro: div_product_less)+
  have n: "nn (rat_div L a b) = (nn a div ?g) * (dd b div ?h)"
    and e: "dd (rat_div L a b) = (dd a div ?h) * (nn b div ?g)"
    using lt g h
    by (simp_all add: rat_div_def rat_new_raw_def Let_def u_mul_nat [OF L] u_div_nat [OF L] u_gcd_nat [OF L])
  have "rat_val (rat_div L a b) = rat_val a * (of_nat (dd b) / of_nat (nn b))"
    unfolding rat_val_def n e by (rule cross_cancel) (use g h in simp_all)
  then have "rat_val (rat_div L a b) = rat_val a / rat_val b"
    by (simp add: rat_val_def)
  moreover have "dd (rat_div L a b) \<noteq> 0"
    unfolding e using d by (simp add: dvd_div_eq_0_iff)
  ultimately show ?thesis by (simp add: rat_wf_dd)
qed

text \<open>Operations with a whole number on the right.\<close>

lemma rat_add_u256_val:
  assumes L: "u256_ok L" and wf: "rat_wf a" and fits: "nn a + dd a * unat t < 2 ^ 256"
  shows "rat_wf (rat_add_u256 L a t) \<and> rat_val (rat_add_u256 L a t) = rat_val a + of_nat (unat t)"
proof -
  have "nn (rat_add_u256 L a t) = nn a + dd a * unat t" "dd (rat_add_u256 L a t) = dd a"
    using fits by (simp_all add: rat_add_u256_def rat_new_raw_def u_add_nat [OF L] u_mul_nat [OF L])
  then show ?thesis
    using wf unfolding rat_val_def rat_wf_dd by (simp add: add_divide_distrib del: of_nat_unat)
qed

lemma rat_into_u256_val:
  assumes L: "u256_ok L" and wf: "rat_wf a"
  shows "int (unat (rat_into_u256 L a)) = \<lfloor>rat_val a\<rfloor>"
  using wf by (simp add: rat_into_u256_def rat_wf_dd rat_val_def u_div_nat [OF L] floor_divide_of_nat_eq
      del: of_nat_unat)

text \<open>Comparison crosses over the greatest common divisor of the denominators.\<close>

definition cmp_fits :: "RationalU256 \<Rightarrow> RationalU256 \<Rightarrow> bool" where
  "cmp_fits a b \<longleftrightarrow> nn a * dd b < 2 ^ 256 \<and> nn b * dd a < 2 ^ 256"

lemma rat_cmp_val:
  assumes L: "u256_ok L" and wf: "rat_wf a" "rat_wf b" and fits: "cmp_fits a b"
  shows "rat_cmp L a b = cmp_of (rat_val a) (rat_val b)"
proof -
  let ?g = "gcd (dd a) (dd b)"
  let ?x = "u_mul L (r_numer a) (u_div L (r_denom b) (u_gcd L (r_denom a) (r_denom b)))"
  let ?y = "u_mul L (r_numer b) (u_div L (r_denom a) (u_gcd L (r_denom a) (r_denom b)))"
  have d: "dd a \<noteq> 0" "dd b \<noteq> 0" using wf by (simp_all add: rat_wf_dd)
  then have g: "0 < ?g" by simp
  have lt: "nn a * (dd b div ?g) < 2 ^ 256" "nn b * (dd a div ?g) < 2 ^ 256"
    using fits div_product_less [where g = 1] unfolding cmp_fits_def by fastforce+
  have x: "unat ?x = nn a * (dd b div ?g)" and y: "unat ?y = nn b * (dd a div ?g)"
    using lt g by (simp_all add: u_mul_nat [OF L] u_div_nat [OF L] u_gcd_nat [OF L])
  have sx: "unat ?x * ?g = nn a * dd b" and sy: "unat ?y * ?g = nn b * dd a"
    by (simp_all add: x y mult.assoc)
  have "rat_val a < rat_val b \<longleftrightarrow> (of_nat (nn a * dd b) :: rat) < of_nat (nn b * dd a)"
    using d by (simp add: rat_val_def divide_less_eq less_divide_eq field_simps del: of_nat_unat)
  then have less: "rat_val a < rat_val b \<longleftrightarrow> unat ?x < unat ?y"
    using g by (simp only: of_nat_less_iff sx [symmetric] sy [symmetric] mult_less_cancel2) simp
  have "rat_val a = rat_val b \<longleftrightarrow> (of_nat (nn a * dd b) :: rat) = of_nat (nn b * dd a)"
    using d by (simp add: rat_val_def frac_eq_eq del: of_nat_unat)
  then have eq: "rat_val a = rat_val b \<longleftrightarrow> unat ?x = unat ?y"
    using g by (simp only: of_nat_eq_iff sx [symmetric] sy [symmetric] mult_cancel2) auto
  show ?thesis
    by (simp only: rat_cmp_def Let_def cmp_of_def word_less_nat_alt word_unat_eq_iff less eq)
qed

section \<open>Properties\<close>

text \<open>C9. Over the arithmetic of \<open>U256\<close>, and while the aligned numerators fit its 256 bits, addition
  of rationals returns (it does not panic) a rational in lowest terms with the exact sum as its
  value, and saturating subtraction returns the difference truncated at zero.\<close>

theorem rational_add_sub_exact:
  assumes "u256_ok L" and "rat_wf a" and "rat_wf b" and "align_fits a b"
  shows "(\<exists>c. rat_add L a b = Some c \<and> rat_wf c \<and> coprime (nn c) (dd c) \<and> rat_val c = rat_val a + rat_val b) \<and>
         (\<exists>c. rat_saturating_sub L a b = Some c \<and> rat_wf c \<and> rat_val c = max 0 (rat_val a - rat_val b))"
  using rat_add_val [OF assms] rat_saturating_sub_val [OF assms] by blast

theorem rational_add_sub_exact_witness:
  "\<exists>c. rat_saturating_sub u256_words (rat_new_raw 1 3) (rat_new_raw 1 2) = Some c \<and> rat_val c = 0"
proof -
  have l: "lcm 3 2 = (6 :: nat)" by (simp add: lcm_nat_def gcd_non_0_nat)
  have v: "rat_val (rat_new_raw 1 3) - rat_val (rat_new_raw 1 2) = - 1 / 6"
    by (simp add: rat_val_def rat_new_raw_def)
  have "\<exists>c. rat_saturating_sub u256_words (rat_new_raw 1 3) (rat_new_raw 1 2) = Some c \<and> rat_wf c \<and>
      rat_val c = max 0 (rat_val (rat_new_raw 1 3) - rat_val (rat_new_raw 1 2))"
    by (rule conjunct2 [OF rational_add_sub_exact [OF u256_words_ok]])
      (simp_all add: rat_wf_def rat_new_raw_def align_fits_def l)
  then show ?thesis unfolding v by auto
qed

text \<open>C10. The comparison of rationals is the order of their values, and multiplication and division
  are exact, while the products they form fit 256 bits.\<close>

theorem rational_cmp_mul_div_exact:
  assumes "u256_ok L" and "rat_wf a" and "rat_wf b"
  shows "(cmp_fits a b \<longrightarrow> rat_cmp L a b = cmp_of (rat_val a) (rat_val b)) \<and>
         (mul_fits a b \<longrightarrow> rat_wf (rat_mul L a b) \<and> rat_val (rat_mul L a b) = rat_val a * rat_val b) \<and>
         (div_fits a b \<and> \<not> rat_is_zero b \<longrightarrow>
            rat_wf (rat_div L a b) \<and> rat_val (rat_div L a b) = rat_val a / rat_val b)"
  using rat_cmp_val [OF assms] rat_mul_val [OF assms] rat_div_val [OF assms] by blast

theorem rational_cmp_mul_div_exact_witness:
  "rat_cmp u256_words (rat_new_raw 1 3) (rat_new_raw 2 4) = Less \<and>
   rat_val (rat_mul u256_words (rat_new_raw 1 3) (rat_new_raw 2 4)) = 1 / 6 \<and>
   rat_val (rat_div u256_words (rat_new_raw 1 3) (rat_new_raw 2 4)) = 2 / 3"
proof -
  have wf: "rat_wf (rat_new_raw 1 3)" "rat_wf (rat_new_raw 2 4)" by (simp_all add: rat_wf_def rat_new_raw_def)
  have "cmp_fits (rat_new_raw 1 3) (rat_new_raw 2 4)" "mul_fits (rat_new_raw 1 3) (rat_new_raw 2 4)"
    "div_fits (rat_new_raw 1 3) (rat_new_raw 2 4)" "\<not> rat_is_zero (rat_new_raw 2 4)"
    by (simp_all add: cmp_fits_def mul_fits_def div_fits_def rat_is_zero_def rat_new_raw_def)
  moreover have "rat_val (rat_new_raw 1 3) = 1 / 3" "rat_val (rat_new_raw 2 4) = 1 / 2"
    by (simp_all add: rat_new_raw_def rat_val_def)
  ultimately show ?thesis
    using rational_cmp_mul_div_exact [OF u256_words_ok wf] by (simp only:) (simp add: cmp_of_def)
qed

end
