(* ===== verification/Epoch.thy ===== *)
theory Epoch
  imports Capacity Rational
begin

unbundle bit_operations_syntax

text \<open>
  \<open>util/types/src/core/extras.rs\<close>: \<open>EpochNumberWithFraction\<close>, the position of a block
  inside an epoch packed into one \<open>u64\<close> (24 bits of number, 16 of index, 16 of length), and
  \<open>EpochExt\<close>, an epoch's rewards and boundaries. The lemmas give the packing's round trip, the
  order and the successor relation on well-formed values, and that the block rewards of an epoch add
  up to the reward that was set for it.

  \<open>debug_assert!\<close> is compiled out of the release profile and has no counterpart here.
\<close>

type_synonym byte32 = "u8 list"

section \<open>EpochNumberWithFraction\<close>

datatype EpochNumberWithFraction = EpochNumberWithFraction (full_value: u64)

definition NUMBER_OFFSET :: nat where "NUMBER_OFFSET = 0"
definition NUMBER_BITS :: nat where "NUMBER_BITS = 24"
definition NUMBER_MAXIMUM_VALUE :: u64 where "NUMBER_MAXIMUM_VALUE = push_bit NUMBER_BITS 1"
definition NUMBER_MASK :: u64 where "NUMBER_MASK = NUMBER_MAXIMUM_VALUE - 1"
definition INDEX_OFFSET :: nat where "INDEX_OFFSET = NUMBER_BITS"
definition INDEX_BITS :: nat where "INDEX_BITS = 16"
definition INDEX_MAXIMUM_VALUE :: u64 where "INDEX_MAXIMUM_VALUE = push_bit INDEX_BITS 1"
definition INDEX_MASK :: u64 where "INDEX_MASK = INDEX_MAXIMUM_VALUE - 1"
definition LENGTH_OFFSET :: nat where "LENGTH_OFFSET = NUMBER_BITS + INDEX_BITS"
definition LENGTH_BITS :: nat where "LENGTH_BITS = 16"
definition LENGTH_MAXIMUM_VALUE :: u64 where "LENGTH_MAXIMUM_VALUE = push_bit LENGTH_BITS 1"
definition LENGTH_MASK :: u64 where "LENGTH_MASK = LENGTH_MAXIMUM_VALUE - 1"

definition enf_new_unchecked :: "u64 \<Rightarrow> u64 \<Rightarrow> u64 \<Rightarrow> EpochNumberWithFraction" where
  "enf_new_unchecked number index len =
     EpochNumberWithFraction
       ((push_bit LENGTH_OFFSET len OR push_bit INDEX_OFFSET index) OR push_bit NUMBER_OFFSET number)"

definition enf_new :: "u64 \<Rightarrow> u64 \<Rightarrow> u64 \<Rightarrow> EpochNumberWithFraction" where
  "enf_new number index len = enf_new_unchecked number index len"

definition enf_number :: "EpochNumberWithFraction \<Rightarrow> u64" where
  "enf_number self = drop_bit NUMBER_OFFSET (full_value self) AND NUMBER_MASK"

definition enf_index :: "EpochNumberWithFraction \<Rightarrow> u64" where
  "enf_index self = drop_bit INDEX_OFFSET (full_value self) AND INDEX_MASK"

definition enf_length :: "EpochNumberWithFraction \<Rightarrow> u64" where
  "enf_length self = drop_bit LENGTH_OFFSET (full_value self) AND LENGTH_MASK"

text \<open>\<open>number + 1\<close> cannot overflow: the number has 24 bits.\<close>

definition minimum_epoch_number_after_n_blocks :: "EpochNumberWithFraction \<Rightarrow> u64 \<Rightarrow> u64" where
  "minimum_epoch_number_after_n_blocks self n =
     (if saturating_add (enf_index self) n \<ge> enf_length self
      then enf_number self + 1 else enf_number self)"

definition from_full_value_unchecked :: "u64 \<Rightarrow> EpochNumberWithFraction" where
  "from_full_value_unchecked v = EpochNumberWithFraction v"

definition enf_normalize :: "EpochNumberWithFraction \<Rightarrow> EpochNumberWithFraction" where
  "enf_normalize self = (if enf_length self = 0 then enf_new (enf_number self) 0 1 else self)"

definition from_full_value :: "u64 \<Rightarrow> EpochNumberWithFraction" where
  "from_full_value v = enf_normalize (from_full_value_unchecked v)"

text \<open>\<open>to_rational\<close> panics (\<open>None\<close>) on a zero length, except for the value 0.\<close>

definition enf_to_rational :: "u256_lib \<Rightarrow> EpochNumberWithFraction \<Rightarrow> RationalU256 option" where
  "enf_to_rational L self =
     (if full_value self = 0 then Some rat_zero
      else (case rat_new L (ucast (enf_index self)) (ucast (enf_length self)) of
        None \<Rightarrow> None
      | Some r \<Rightarrow> Some (rat_add_u256 L r (ucast (enf_number self)))))"

definition enf_is_genesis :: "EpochNumberWithFraction \<Rightarrow> bool" where
  "enf_is_genesis self \<longleftrightarrow> enf_number self = 0 \<and> enf_index self = 0 \<and> enf_length self = 0"

definition is_successor_of :: "EpochNumberWithFraction \<Rightarrow> EpochNumberWithFraction \<Rightarrow> bool" where
  "is_successor_of self predecessor \<longleftrightarrow>
     (if enf_index predecessor + 1 = enf_length predecessor
      then enf_number self = enf_number predecessor + 1 \<and> enf_index self = 0
      else enf_number self = enf_number predecessor \<and>
           enf_index self = enf_index predecessor + 1 \<and>
           enf_length self = enf_length predecessor)"

definition is_well_formed :: "EpochNumberWithFraction \<Rightarrow> bool" where
  "is_well_formed self \<longleftrightarrow> enf_length self > 0 \<and> enf_length self > enf_index self"

definition is_well_formed_increment :: "EpochNumberWithFraction \<Rightarrow> bool" where
  "is_well_formed_increment self \<longleftrightarrow>
     enf_length self > enf_index self \<or> (enf_length self = 0 \<and> enf_index self = 0)"

definition enf_cmp :: "EpochNumberWithFraction \<Rightarrow> EpochNumberWithFraction \<Rightarrow> ordering" where
  "enf_cmp self other =
     (case cmp_of (enf_number self) (enf_number other) of
       Less \<Rightarrow> Less
     | Greater \<Rightarrow> Greater
     | Equal \<Rightarrow> cmp_of (enf_index self * enf_length other) (enf_index other * enf_length self))"

section \<open>The packing\<close>

lemmas enf_const_defs = NUMBER_OFFSET_def NUMBER_BITS_def NUMBER_MAXIMUM_VALUE_def NUMBER_MASK_def
  INDEX_OFFSET_def INDEX_BITS_def INDEX_MAXIMUM_VALUE_def INDEX_MASK_def
  LENGTH_OFFSET_def LENGTH_BITS_def LENGTH_MAXIMUM_VALUE_def LENGTH_MASK_def

lemma mask_words: "(push_bit n 1 - 1 :: u64) = mask n"
  by (simp add: mask_eq_exp_minus_1 push_bit_of_1)

lemma enf_fields:
  "enf_number e = take_bit 24 (full_value e)"
  "enf_index e = take_bit 16 (drop_bit 24 (full_value e))"
  "enf_length e = take_bit 16 (drop_bit 40 (full_value e))"
  by (simp_all only: enf_number_def enf_index_def enf_length_def enf_const_defs mask_words
      take_bit_eq_mask and.commute [of "mask _"] drop_bit_0 id_apply) simp_all

lemma unat_take_bit_word: "unat (take_bit n w) = unat w mod 2 ^ n" for w :: u64
  by (simp only: unsigned_take_bit_eq) (simp add: take_bit_eq_mod)

lemma unat_drop_bit_word: "unat (drop_bit n w) = unat w div 2 ^ n" for w :: u64
  by (simp only: unsigned_drop_bit_eq take_bit_nat_eq_self [OF unat_lt2p]) (rule drop_bit_eq_div)

lemma enf_nat:
  "unat (enf_number e) = unat (full_value e) mod 2 ^ 24"
  "unat (enf_index e) = unat (full_value e) div 2 ^ 24 mod 2 ^ 16"
  "unat (enf_length e) = unat (full_value e) div 2 ^ 40 mod 2 ^ 16"
  by (simp_all only: enf_fields unat_take_bit_word unat_drop_bit_word)

lemma enf_bounds:
  "unat (enf_number e) < 16777216" "unat (enf_index e) < 65536" "unat (enf_length e) < 65536"
  by (simp_all add: enf_nat)

lemma small_take_bit: "unat w < 2 ^ n \<Longrightarrow> take_bit n w = w" for w :: u64
  by (simp add: word_unat_eq_iff unat_take_bit_word)

text \<open>Reading back what \<open>new\<close> packed, for fields inside their widths.\<close>

lemma enf_new_fields:
  assumes "unat number < 2 ^ 24" "unat index < 2 ^ 16" "unat len < 2 ^ 16"
  shows "enf_number (enf_new number index len) = number"
    and "enf_index (enf_new number index len) = index"
    and "enf_length (enf_new number index len) = len"
proof -
  have n: "bit number k \<Longrightarrow> k < 24" and i: "bit index k \<Longrightarrow> k < 16" and l: "bit len k \<Longrightarrow> k < 16" for k
    using small_take_bit [OF assms(1)] small_take_bit [OF assms(2)] small_take_bit [OF assms(3)]
    by (metis bit_take_bit_iff)+
  show "enf_number (enf_new number index len) = number"
    by (rule bit_word_eqI)
      (auto simp: enf_fields enf_new_def enf_new_unchecked_def enf_const_defs bit_simps dest: n)
  show "enf_index (enf_new number index len) = index"
    by (rule bit_word_eqI)
      (auto simp: enf_fields enf_new_def enf_new_unchecked_def enf_const_defs bit_simps dest: n i)
  show "enf_length (enf_new number index len) = len"
    by (rule bit_word_eqI)
      (auto simp: enf_fields enf_new_def enf_new_unchecked_def enf_const_defs bit_simps dest: n i l)
qed

text \<open>Packing the fields of a value with clear upper bits gives the value back.\<close>

lemma enf_repack:
  assumes "unat (full_value e) < 2 ^ 56"
  shows "enf_new (enf_number e) (enf_index e) (enf_length e) = e"
proof -
  have top: "bit (full_value e) k \<Longrightarrow> k < 56" for k
    using small_take_bit [OF assms] by (metis bit_take_bit_iff)
  have "full_value (enf_new (enf_number e) (enf_index e) (enf_length e)) = full_value e"
  proof (rule bit_word_eqI)
    fix k
    assume "k < LENGTH(64)"
    consider "k < 24" | "24 \<le> k" "k < 40" | "40 \<le> k" by linarith
    then show "bit (full_value (enf_new (enf_number e) (enf_index e) (enf_length e))) k = bit (full_value e) k"
      by cases
        (auto simp: enf_fields enf_new_def enf_new_unchecked_def enf_const_defs bit_simps dest: top)
  qed
  then show ?thesis by (rule EpochNumberWithFraction.expand)
qed

section \<open>Order, successor, value\<close>

text \<open>The position an epoch value stands for: its number plus the fraction of the epoch passed.\<close>

definition enf_val :: "EpochNumberWithFraction \<Rightarrow> rat" where
  "enf_val e = of_nat (unat (enf_number e)) + of_nat (unat (enf_index e)) / of_nat (unat (enf_length e))"

lemma is_well_formed_nat: "is_well_formed e \<longleftrightarrow> unat (enf_index e) < unat (enf_length e)"
  by (auto simp: is_well_formed_def word_less_nat_alt)

lemma enf_val_bounds:
  assumes "is_well_formed e"
  shows "of_nat (unat (enf_number e)) \<le> enf_val e" "enf_val e < of_nat (unat (enf_number e)) + 1"
proof -
  have lt: "(of_nat (unat (enf_index e)) :: rat) < of_nat (unat (enf_length e))"
    using assms unfolding is_well_formed_nat by (simp only: of_nat_less_iff)
  have "(0 :: rat) \<le> of_nat (unat (enf_index e)) / of_nat (unat (enf_length e))"
    by (simp del: of_nat_unat)
  then show "of_nat (unat (enf_number e)) \<le> enf_val e" by (simp add: enf_val_def)
  have "(of_nat (unat (enf_index e)) :: rat) / of_nat (unat (enf_length e)) < 1"
    using lt by (simp add: divide_less_eq_1 del: of_nat_unat)
  then show "enf_val e < of_nat (unat (enf_number e)) + 1" by (simp add: enf_val_def)
qed

lemma unat_index_mult:
  "unat (enf_index a * enf_length b) = unat (enf_index a) * unat (enf_length b)"
proof -
  have "unat (enf_index a) * unat (enf_length b) < 65536 * 65536"
    using enf_bounds(2) [of a] enf_bounds(3) [of b] by (intro mult_strict_mono) auto
  then show ?thesis by (simp add: unat_word_ariths)
qed

text \<open>\<open>cmp\<close> on well-formed values is the order of the positions they stand for.\<close>

lemma enf_cmp_val:
  assumes "is_well_formed a" "is_well_formed b"
  shows "enf_cmp a b = cmp_of (enf_val a) (enf_val b)"
proof -
  consider (less) "unat (enf_number a) < unat (enf_number b)"
    | (eq) "enf_number a = enf_number b"
    | (greater) "unat (enf_number b) < unat (enf_number a)"
    by (metis linorder_less_linear word_unat_eq_iff)
  then show ?thesis
  proof cases
    case less
    then have "of_nat (unat (enf_number a)) + (1::rat) \<le> of_nat (unat (enf_number b))"
      by (metis Suc_eq_plus1 Suc_leI of_nat_1 of_nat_add of_nat_le_iff)
    then have "enf_val a < enf_val b"
      using enf_val_bounds(2) [OF assms(1)] enf_val_bounds(1) [OF assms(2)] by linarith
    then show ?thesis
      using less by (simp add: enf_cmp_def cmp_of_def word_less_nat_alt)
  next
    case greater
    then have "of_nat (unat (enf_number b)) + (1::rat) \<le> of_nat (unat (enf_number a))"
      by (metis Suc_eq_plus1 Suc_leI of_nat_1 of_nat_add of_nat_le_iff)
    then have "enf_val b < enf_val a"
      using enf_val_bounds(2) [OF assms(2)] enf_val_bounds(1) [OF assms(1)] by linarith
    then show ?thesis
      using greater by (auto simp: enf_cmp_def cmp_of_def word_less_nat_alt)
  next
    case eq
    let ?ia = "unat (enf_index a)" and ?la = "unat (enf_length a)"
    let ?ib = "unat (enf_index b)" and ?lb = "unat (enf_length b)"
    have pos: "0 < ?la" "0 < ?lb"
      using assms by (auto simp: is_well_formed_nat)
    have "enf_val a < enf_val b \<longleftrightarrow> (of_nat ?ia :: rat) / of_nat ?la < of_nat ?ib / of_nat ?lb"
      using eq by (simp add: enf_val_def)
    also have "\<dots> \<longleftrightarrow> (of_nat (?ia * ?lb) :: rat) < of_nat (?ib * ?la)"
      using pos by (simp add: divide_less_eq less_divide_eq field_simps del: of_nat_unat)
    finally have lt: "enf_val a < enf_val b \<longleftrightarrow> ?ia * ?lb < ?ib * ?la" by (simp only: of_nat_less_iff)
    have "enf_val a = enf_val b \<longleftrightarrow> (of_nat ?ia :: rat) / of_nat ?la = of_nat ?ib / of_nat ?lb"
      using eq by (simp add: enf_val_def)
    also have "\<dots> \<longleftrightarrow> (of_nat (?ia * ?lb) :: rat) = of_nat (?ib * ?la)"
      using pos by (simp add: frac_eq_eq del: of_nat_unat)
    finally have eq': "enf_val a = enf_val b \<longleftrightarrow> ?ia * ?lb = ?ib * ?la" by (simp only: of_nat_eq_iff)
    show ?thesis
      by (simp add: enf_cmp_def cmp_of_def eq lt eq' word_less_nat_alt word_unat_eq_iff unat_index_mult)
  qed
qed

lemma unat_plus_one_small: "unat w < 16777216 \<Longrightarrow> unat (w + 1) = unat w + 1" for w :: u64
  by (simp add: unat_word_ariths)

lemma is_successor_of_nat:
  "is_successor_of s p \<longleftrightarrow>
     (if unat (enf_index p) + 1 = unat (enf_length p)
      then unat (enf_number s) = unat (enf_number p) + 1 \<and> enf_index s = 0
      else enf_number s = enf_number p \<and> unat (enf_index s) = unat (enf_index p) + 1 \<and>
           enf_length s = enf_length p)"
proof -
  have "unat (enf_index p + 1) = unat (enf_index p) + 1"
    using enf_bounds(2) [of p] by (intro unat_plus_one_small) simp
  moreover have "unat (enf_number p + 1) = unat (enf_number p) + 1"
    using enf_bounds(1) [of p] by (intro unat_plus_one_small) simp
  ultimately show ?thesis
    by (simp add: is_successor_of_def word_unat_eq_iff)
qed

text \<open>A successor is strictly later, by one block's share of its predecessor's epoch.\<close>

lemma is_successor_of_val:
  assumes "is_well_formed p" "is_successor_of s p"
  shows "enf_val s = enf_val p + 1 / of_nat (unat (enf_length p))"
proof (cases "unat (enf_index p) + 1 = unat (enf_length p)")
  case True
  then have s: "unat (enf_number s) = unat (enf_number p) + 1" "enf_index s = 0"
    using assms(2) by (simp_all add: is_successor_of_nat)
  have "(of_nat (unat (enf_index p)) :: rat) + 1 = of_nat (unat (enf_length p))"
    using True by (metis of_nat_1 of_nat_add)
  moreover have "(of_nat (unat (enf_length p)) :: rat) \<noteq> 0"
    using assms(1) by (simp add: is_well_formed_nat del: of_nat_unat)
  ultimately have "(of_nat (unat (enf_index p)) :: rat) / of_nat (unat (enf_length p)) +
      1 / of_nat (unat (enf_length p)) = 1"
    by (metis add_divide_distrib divide_self)
  then show ?thesis
    unfolding enf_val_def s by simp
next
  case False
  then have s: "enf_number s = enf_number p" "unat (enf_index s) = unat (enf_index p) + 1"
    "enf_length s = enf_length p"
    using assms(2) by (simp_all add: is_successor_of_nat)
  show ?thesis
    unfolding enf_val_def s by (simp add: add_divide_distrib)
qed

lemma is_successor_of_later:
  assumes "is_well_formed p" "is_well_formed s" "is_successor_of s p"
  shows "enf_cmp p s = Less"
proof -
  have "0 < unat (enf_length p)"
    using assms(1) by (auto simp: is_well_formed_nat)
  then have "(0::rat) < 1 / of_nat (unat (enf_length p))"
    by (simp del: of_nat_unat)
  then show ?thesis
    using is_successor_of_val [OF assms(1,3)] by (simp add: enf_cmp_val assms(1,2))
qed

text \<open>\<open>normalize\<close> removes the zero length and keeps the number.\<close>

lemma enf_normalize_length: "enf_length (enf_normalize e) \<noteq> 0"
  by (simp add: enf_normalize_def enf_new_fields(3) enf_bounds(1) [of e, simplified])

lemma enf_normalize_val:
  assumes "is_well_formed_increment e"
  shows "is_well_formed (enf_normalize e)" "enf_val (enf_normalize e) = enf_val e"
proof -
  have "unat (enf_number e) < 2 ^ 24" using enf_bounds(1) [of e] by simp
  note f = enf_new_fields [OF this, of 0 1, simplified]
  show "is_well_formed (enf_normalize e)"
    using assms f by (auto simp: enf_normalize_def is_well_formed_increment_def is_well_formed_def word_gt_0)
  show "enf_val (enf_normalize e) = enf_val e"
    using assms f by (auto simp: enf_normalize_def enf_val_def is_well_formed_increment_def)
qed

text \<open>\<open>to_rational\<close> never panics on a non-zero length, and gives the position.\<close>

lemma enf_to_rational_val:
  assumes L: "u256_ok L" and len: "enf_length e \<noteq> 0"
  shows "\<exists>r. enf_to_rational L e = Some r \<and> rat_wf r \<and> rat_val r = enf_val e \<and>
             nn r < 2 ^ 41 \<and> dd r < 2 ^ 16"
proof -
  have nz: "full_value e \<noteq> 0"
    using len by (auto simp: enf_fields)
  have "(ucast (enf_length e) :: u256) \<noteq> 0"
    using len by (metis unat_ucast_u256 unat_zero_iff_word)
  then obtain r where r: "rat_new L (ucast (enf_index e)) (ucast (enf_length e)) = Some r" "rat_wf r"
    "rat_val r = of_nat (unat (enf_index e)) / of_nat (unat (enf_length e))"
    using rat_new_val [OF L] by (metis unat_ucast_u256)
  have b: "nn r < 65536" "dd r < 65536"
    using rat_new_bounds [OF L r(1)] enf_bounds(2,3) [of e] by auto
  have "dd r * unat (enf_number e) \<le> 65536 * 16777216"
    using b enf_bounds(1) [of e] by (intro mult_le_mono) auto
  then have sum: "nn r + dd r * unat (enf_number e) < 2 ^ 41" using b by simp
  let ?r = "rat_add_u256 L r (ucast (enf_number e))"
  have fits: "nn r + dd r * unat (ucast (enf_number e) :: u256) < 2 ^ 256" using sum by simp
  have "nn ?r = nn r + dd r * unat (enf_number e)" "dd ?r = dd r"
    using fits by (simp_all add: rat_add_u256_def rat_new_raw_def u_add_nat [OF L] u_mul_nat [OF L])
  then show ?thesis
    using rat_add_u256_val [OF L r(2) fits] r nz b sum
    by (auto simp: enf_to_rational_def enf_val_def add.commute)
qed

section \<open>EpochExt\<close>

record EpochExt =
  ee_number :: u64
  base_block_reward :: capacity
  remainder_reward :: capacity
  previous_epoch_hash_rate :: u256
  last_block_hash_in_previous_epoch :: byte32
  ee_start_number :: u64
  ee_length :: u64
  ee_compact_target :: u32

definition checked_primary_reward :: "EpochExt \<Rightarrow> capacity_error + capacity" where
  "checked_primary_reward self =
     ok_or Overflow
       (map_option shannons
         (Option.bind (checked_mul (as_u64 (base_block_reward self)) (ee_length self))
           (\<lambda>reward. checked_add reward (as_u64 (remainder_reward self)))))"

definition try_set_primary_reward :: "EpochExt \<Rightarrow> capacity \<Rightarrow> capacity_error + EpochExt" where
  "try_set_primary_reward self primary_reward =
     (if ee_length self = 0 then Inl Overflow
      else Inr (self\<lparr>
        base_block_reward := shannons (as_u64 primary_reward div ee_length self),
        remainder_reward := shannons (as_u64 primary_reward mod ee_length self)\<rparr>))"

definition ee_is_genesis :: "EpochExt \<Rightarrow> bool" where
  "ee_is_genesis self \<longleftrightarrow> ee_number self = 0"

definition block_reward :: "EpochExt \<Rightarrow> u64 \<Rightarrow> capacity_error + capacity" where
  "block_reward self number =
     (if (case checked_sub number (ee_start_number self) of
            Some offset \<Rightarrow> offset < as_u64 (remainder_reward self)
          | None \<Rightarrow> False)
      then safe_add (base_block_reward self) cap_one
      else Inr (base_block_reward self))"

definition number_with_fraction :: "EpochExt \<Rightarrow> u64 \<Rightarrow> EpochNumberWithFraction option" where
  "number_with_fraction self number =
     map_option (\<lambda>index. enf_new (ee_number self) index (ee_length self))
       (checked_sub number (ee_start_number self))"

definition secondary_block_issuance :: "EpochExt \<Rightarrow> u64 \<Rightarrow> capacity \<Rightarrow> capacity_error + capacity" where
  "secondary_block_issuance self block_number secondary_epoch_issuance =
     (let len = ee_length self
      in if len = 0 then Inl Overflow
         else
           (let g2 = shannons (as_u64 secondary_epoch_issuance div len);
                remainder = as_u64 secondary_epoch_issuance mod len
            in if (case checked_sub block_number (ee_start_number self) of
                     Some offset \<Rightarrow> offset < remainder
                   | None \<Rightarrow> False)
               then safe_add g2 cap_one else Inr g2))"

text \<open>
  The contract both reward schedules share: an epoch's total is divided over its blocks, the first
  \<open>total mod blocks\<close> blocks receiving one shannon more. Proved once: the shares add up to the
  total, nothing is lost to rounding, and no two shares differ by more than one shannon.
\<close>

locale epoch_schedule =
  fixes valid :: "'e \<Rightarrow> bool"
    and blocks :: "'e \<Rightarrow> nat"
    and total :: "'e \<Rightarrow> nat"
    and share :: "'e \<Rightarrow> nat \<Rightarrow> nat option"
  assumes blocks_pos: "valid e \<Longrightarrow> 0 < blocks e"
    and share_value: "valid e \<Longrightarrow> i < blocks e \<Longrightarrow>
      share e i = Some (total e div blocks e + (if i < total e mod blocks e then 1 else 0))"
begin

lemma shares_defined: "valid e \<Longrightarrow> i < blocks e \<Longrightarrow> share e i \<noteq> None"
  by (simp add: share_value)

lemma shares_sum:
  assumes "valid e"
  shows "(\<Sum>i<blocks e. the (share e i)) = total e"
proof -
  let ?q = "total e div blocks e" and ?r = "total e mod blocks e"
  have lt: "?r < blocks e" using blocks_pos [OF assms] by simp
  have "(\<Sum>i<blocks e. the (share e i)) = (\<Sum>i<blocks e. ?q + (if i < ?r then 1 else 0))"
    using assms by (intro sum.cong) (simp_all add: share_value)
  also have "\<dots> = blocks e * ?q + card ({..<blocks e} \<inter> {i. i < ?r})"
    by (simp add: sum.distrib sum.If_cases)
  also have "{..<blocks e} \<inter> {i. i < ?r} = {..<?r}"
    using lt by auto
  finally show ?thesis by simp
qed

lemma shares_fair:
  assumes "valid e" "i < blocks e" "j < blocks e"
  shows "the (share e i) \<le> the (share e j) + 1"
  using assms by (simp add: share_value)

end

text \<open>The reward of the \<open>i\<close>-th block of an epoch under the two schedules.\<close>

definition nth_block :: "EpochExt \<Rightarrow> nat \<Rightarrow> u64" where
  "nth_block e i = ee_start_number e + word_of_nat i"

definition result_nat :: "capacity_error + capacity \<Rightarrow> nat option" where
  "result_nat r = (case r of Inl _ \<Rightarrow> None | Inr c \<Rightarrow> Some (cap_nat c))"

definition primary_valid :: "EpochExt \<Rightarrow> bool" where
  "primary_valid e \<longleftrightarrow>
     unat (ee_start_number e) + unat (ee_length e) \<le> 2 ^ 64 \<and>
     remainder_reward e < shannons (ee_length e) \<and>
     cap_nat (base_block_reward e) * unat (ee_length e) + cap_nat (remainder_reward e) < 2 ^ 64"

definition secondary_valid :: "EpochExt \<times> capacity \<Rightarrow> bool" where
  "secondary_valid p \<longleftrightarrow>
     unat (ee_start_number (fst p)) + unat (ee_length (fst p)) \<le> 2 ^ 64 \<and> ee_length (fst p) \<noteq> 0"

lemma nth_block_offset:
  assumes "unat (ee_start_number e) + unat (ee_length e) \<le> 2 ^ 64" "i < unat (ee_length e)"
  shows "\<exists>w. checked_sub (nth_block e i) (ee_start_number e) = Some w \<and> unat w = i"
proof -
  have "i < 2 ^ 64" using assms by simp
  then have i: "unat (word_of_nat i :: u64) = i" by (simp add: unat_of_nat)
  have "unat (nth_block e i) = unat (ee_start_number e) + i"
    using assms i by (simp add: nth_block_def unat_word_ariths)
  then have "checked_sub (nth_block e i) (ee_start_number e) = Some (word_of_nat i)"
    by (simp add: checked_sub_Some i)
  then show ?thesis using i by blast
qed

lemma safe_add_one_nat:
  "cap_nat c + 1 < 2 ^ 64 \<Longrightarrow> \<exists>d. safe_add c cap_one = Inr d \<and> cap_nat d = cap_nat c + 1"
  by (cases "safe_add c cap_one") (auto simp: cap_simps)

interpretation primary_schedule: epoch_schedule primary_valid
  "\<lambda>e. unat (ee_length e)"
  "\<lambda>e. cap_nat (base_block_reward e) * unat (ee_length e) + cap_nat (remainder_reward e)"
  "\<lambda>e i. result_nat (block_reward e (nth_block e i))"
proof
  fix e
  assume "primary_valid e"
  then show "0 < unat (ee_length e)" by (auto simp: primary_valid_def cap_simps)
next
  fix e i
  assume v: "primary_valid e" and i: "i < unat (ee_length e)"
  let ?b = "cap_nat (base_block_reward e)" and ?n = "unat (ee_length e)"
    and ?r = "cap_nat (remainder_reward e)"
  have r: "?r < ?n" and tot: "?b * ?n + ?r < 2 ^ 64"
    using v by (simp_all add: primary_valid_def cap_simps)
  obtain w where w: "checked_sub (nth_block e i) (ee_start_number e) = Some w" "unat w = i"
    using nth_block_offset v i unfolding primary_valid_def by blast
  have "i < ?r \<Longrightarrow> ?b + 1 < 2 ^ 64"
  proof -
    assume "i < ?r"
    moreover have "?b * 1 \<le> ?b * ?n"
      using r by (intro mult_le_mono2) simp
    ultimately show ?thesis using tot by linarith
  qed
  then have "result_nat (block_reward e (nth_block e i)) = Some (?b + (if i < ?r then 1 else 0))"
    using w safe_add_one_nat [of "base_block_reward e"]
    by (auto simp: block_reward_def result_nat_def word_less_nat_alt)
  then show "result_nat (block_reward e (nth_block e i)) =
      Some ((?b * ?n + ?r) div ?n + (if i < (?b * ?n + ?r) mod ?n then 1 else 0))"
    using r by simp
qed

interpretation secondary_schedule: epoch_schedule secondary_valid
  "\<lambda>p. unat (ee_length (fst p))"
  "\<lambda>p. cap_nat (snd p)"
  "\<lambda>p i. result_nat (secondary_block_issuance (fst p) (nth_block (fst p) i) (snd p))"
proof
  fix p
  assume "secondary_valid p"
  then show "0 < unat (ee_length (fst p))"
    by (simp add: secondary_valid_def unat_zero_iff_word [symmetric])
next
  fix p i
  assume v: "secondary_valid p" and i: "i < unat (ee_length (fst p))"
  let ?n = "unat (ee_length (fst p))" and ?s = "cap_nat (snd p)"
  obtain w where w: "checked_sub (nth_block (fst p) i) (ee_start_number (fst p)) = Some w" "unat w = i"
    using nth_block_offset v i unfolding secondary_valid_def by blast
  have g2: "cap_nat (shannons (as_u64 (snd p) div ee_length (fst p))) = ?s div ?n"
    by (simp add: unat_div_distrib)
  have "i < ?s mod ?n \<Longrightarrow> ?s div ?n + 1 < 2 ^ 64"
  proof -
    assume lt: "i < ?s mod ?n"
    then have "1 < ?n" using i by (cases "?n = 1") auto
    then have "?s div ?n \<le> ?s div 2"
      by (intro div_le_mono2) simp_all
    then show ?thesis using cap_nat_bound [of "snd p"] by simp
  qed
  then show "result_nat (secondary_block_issuance (fst p) (nth_block (fst p) i) (snd p)) =
      Some (?s div ?n + (if i < ?s mod ?n then 1 else 0))"
    using w v safe_add_one_nat [of "shannons (as_u64 (snd p) div ee_length (fst p))"]
    by (auto simp: secondary_block_issuance_def result_nat_def Let_def word_less_nat_alt
        unat_mod_distrib unat_div_distrib secondary_valid_def)
qed

section \<open>Properties\<close>

text \<open>C6. Packing an epoch number, index and length that fit their 24, 16 and 16 bits and reading
  the fields back is the identity, and repacking the fields of a 56-bit full value gives it back.\<close>

theorem epoch_pack_round_trip:
  assumes "unat number < 2 ^ 24" and "unat index < 2 ^ 16" and "unat len < 2 ^ 16"
    and "unat (full_value e) < 2 ^ 56"
  shows "enf_number (enf_new number index len) = number \<and> enf_index (enf_new number index len) = index \<and>
         enf_length (enf_new number index len) = len \<and>
         enf_new (enf_number e) (enf_index e) (enf_length e) = e"
  using enf_new_fields [OF assms(1-3)] enf_repack [OF assms(4)] by blast

theorem epoch_pack_round_trip_witness:
  "enf_number (enf_new 7 3 1800) = 7 \<and> enf_index (enf_new 7 3 1800) = 3 \<and> enf_length (enf_new 7 3 1800) = 1800 \<and>
   (let e = EpochNumberWithFraction 123456789 in enf_new (enf_number e) (enf_index e) (enf_length e) = e)"
  using epoch_pack_round_trip [of 7 3 1800 "EpochNumberWithFraction 123456789"] by simp

text \<open>C5. The order on epoch numbers with fraction is the order of the rational positions
  \<open>number + index / length\<close> they stand for, and the successor of an epoch position is exactly
  one block further: it adds \<open>1 / length\<close> and compares later.\<close>

theorem epoch_order_is_position_order:
  assumes "is_well_formed a" and "is_well_formed b"
  shows "enf_cmp a b = cmp_of (enf_val a) (enf_val b) \<and>
         (is_successor_of b a \<longrightarrow>
            enf_val b = enf_val a + 1 / of_nat (unat (enf_length a)) \<and> enf_cmp a b = Less)"
  using enf_cmp_val [OF assms] is_successor_of_val [OF assms(1)] is_successor_of_later [OF assms] by blast

theorem epoch_order_is_position_order_witness:
  "enf_cmp (enf_new 4 1799 1800) (enf_new 5 0 1750) = Less"
proof -
  note f = enf_new_fields [of 4 1799 1800] enf_new_fields [of 5 0 1750]
  have "is_well_formed (enf_new 4 1799 1800)" "is_well_formed (enf_new 5 0 1750)"
    "is_successor_of (enf_new 5 0 1750) (enf_new 4 1799 1800)"
    by (simp_all add: is_well_formed_def is_successor_of_def f)
  then show ?thesis using epoch_order_is_position_order by blast
qed

text \<open>C7. The primary block rewards of an epoch's blocks are all defined and add up to exactly the
  epoch's primary reward; no shannon is lost to the division.\<close>

theorem primary_rewards_add_up:
  assumes "primary_valid e"
  shows "(\<forall>i<unat (ee_length e). \<exists>c. block_reward e (nth_block e i) = Inr c) \<and>
         (\<Sum>i<unat (ee_length e). the (result_nat (block_reward e (nth_block e i)))) =
           cap_nat (base_block_reward e) * unat (ee_length e) + cap_nat (remainder_reward e)"
proof -
  have "\<exists>c. block_reward e (nth_block e i) = Inr c" if "i < unat (ee_length e)" for i
    using primary_schedule.shares_defined [OF assms that] by (auto simp: result_nat_def split: sum.splits)
  then show ?thesis using primary_schedule.shares_sum [OF assms] by blast
qed

definition ex_epoch :: EpochExt where
  "ex_epoch = \<lparr>ee_number = 1, base_block_reward = Capacity 10, remainder_reward = Capacity 2,
     previous_epoch_hash_rate = 0, last_block_hash_in_previous_epoch = [], ee_start_number = 100,
     ee_length = 3, ee_compact_target = 0\<rparr>"

theorem primary_rewards_add_up_witness:
  "(\<Sum>i<3. the (result_nat (block_reward ex_epoch (nth_block ex_epoch i)))) = 32"
proof -
  have "primary_valid ex_epoch"
    by (simp add: primary_valid_def ex_epoch_def less_capacity_def shannons_def)
  from conjunct2 [OF primary_rewards_add_up [OF this]] show ?thesis by (simp add: ex_epoch_def)
qed

text \<open>C8. The secondary issuance of an epoch is divided over its blocks without loss: the shares of
  the blocks are all defined, add up to the issuance, and no two of them differ by more than one shannon.\<close>

theorem secondary_issuance_adds_up:
  assumes "ee_length e \<noteq> 0" and "unat (ee_start_number e) + unat (ee_length e) \<le> 2 ^ 64"
  shows "(\<Sum>i<unat (ee_length e). the (result_nat (secondary_block_issuance e (nth_block e i) s))) = cap_nat s \<and>
         (\<forall>i<unat (ee_length e). \<forall>j<unat (ee_length e).
            the (result_nat (secondary_block_issuance e (nth_block e i) s)) \<le>
            the (result_nat (secondary_block_issuance e (nth_block e j) s)) + 1)"
proof -
  have v: "secondary_valid (e, s)" using assms by (simp add: secondary_valid_def)
  show ?thesis
    using secondary_schedule.shares_sum [OF v] secondary_schedule.shares_fair [OF v] by simp
qed

theorem secondary_issuance_adds_up_witness:
  "(\<Sum>i<3. the (result_nat (secondary_block_issuance ex_epoch (nth_block ex_epoch i) (Capacity 100)))) = 100"
  using conjunct1 [OF secondary_issuance_adds_up [of ex_epoch "Capacity 100"]] by (simp add: ex_epoch_def)

end
