(* ===== verification/Chain_Types.thy ===== *)
theory Chain_Types
  imports Epoch
begin

unbundle bit_operations_syntax

text \<open>
  The data the components exchange: the molecule structures of a transaction and the views over
  them (\<open>util/gen-types\<close>, \<open>util/types/src/core/views.rs\<close>), the occupied capacity of a
  cell (\<open>util/gen-types/src/extension/capacity.rs\<close>), cell metadata and resolved transactions
  (first half of \<open>util/types/src/core/cell.rs\<close>). A view caches the hash of its data; the hash is
  a field of the record here too, so nothing is assumed about the hash function. Collections are
  lists, byte strings are lists of bytes.
\<close>

type_synonym ProposalShortId = "u8 list"

record OutPoint =
  op_tx_hash :: byte32
  op_index :: u32

record CellInput =
  ci_since :: u64
  previous_output :: OutPoint

record Script =
  code_hash :: byte32
  hash_type :: u8
  args :: "u8 list"

record CellOutput =
  co_capacity :: u64
  co_lock :: Script
  co_type :: "Script option"

record CellDep =
  cd_out_point :: OutPoint
  cd_dep_type :: u8

record TransactionView =
  tx_version :: u32
  cell_deps :: "CellDep list"
  header_deps :: "byte32 list"
  inputs :: "CellInput list"
  outputs :: "CellOutput list"
  outputs_data :: "u8 list list"
  witnesses :: "u8 list list"
  tx_hash :: byte32
  witness_hash :: byte32

record HeaderView =
  h_version :: u32
  h_compact_target :: u32
  h_timestamp :: u64
  h_number :: u64
  h_epoch :: EpochNumberWithFraction
  h_parent_hash :: byte32
  h_transactions_root :: byte32
  h_proposals_hash :: byte32
  h_extra_hash :: byte32
  h_dao :: "u8 list"
  h_nonce :: u128
  h_hash :: byte32

record UncleBlockView =
  uncle_header :: HeaderView
  uncle_proposals :: "ProposalShortId list"

record BlockView =
  b_header :: HeaderView
  b_uncles :: "UncleBlockView list"
  b_transactions :: "TransactionView list"
  b_proposals :: "ProposalShortId list"
  b_extension :: "u8 list option"

definition block_is_genesis :: "BlockView \<Rightarrow> bool" where
  "block_is_genesis block \<longleftrightarrow> h_number (b_header block) = 0"

section \<open>Script hash types and dep types\<close>

text \<open>\<open>Data\<close>, \<open>Data1\<close>, \<open>Data2\<close>, \<dots>, \<open>Data127\<close> have the value \<open>2 * version\<close>.\<close>

datatype ScriptHashType = TypeHash | DataHash u8

definition script_hash_type_value :: "ScriptHashType \<Rightarrow> u8" where
  "script_hash_type_value t = (case t of TypeHash \<Rightarrow> 1 | DataHash version \<Rightarrow> push_bit 1 version)"

definition script_hash_type_of :: "u8 \<Rightarrow> ScriptHashType option" where
  "script_hash_type_of v =
     (if v = 1 then Some TypeHash
      else if v AND 1 = 0 then Some (DataHash (drop_bit 1 v))
      else None)"

definition verify_value :: "u8 \<Rightarrow> bool" where
  "verify_value v \<longleftrightarrow> v mod 2 = 0 \<or> v = 1"

definition ENABLED_SCRIPT_HASH_TYPE :: "u8 list" where
  "ENABLED_SCRIPT_HASH_TYPE = [0, 1, 2, 4]"

datatype DepType = Code | DepGroup

definition dep_type_value :: "DepType \<Rightarrow> u8" where
  "dep_type_value d = (case d of Code \<Rightarrow> 0 | DepGroup \<Rightarrow> 1)"

definition dep_type_of :: "u8 \<Rightarrow> DepType option" where
  "dep_type_of v = (if v = 0 then Some Code else if v = 1 then Some DepGroup else None)"

section \<open>Views\<close>

definition byte32_is_zero :: "byte32 \<Rightarrow> bool" where
  "byte32_is_zero h \<longleftrightarrow> list_all (\<lambda>b. b = 0) h"

definition short_id_from_tx_hash :: "byte32 \<Rightarrow> ProposalShortId" where
  "short_id_from_tx_hash h = take 10 h"

definition out_point_null :: OutPoint where
  "out_point_null = \<lparr>op_tx_hash = replicate 32 0, op_index = - 1\<rparr>"

definition out_point_is_null :: "OutPoint \<Rightarrow> bool" where
  "out_point_is_null p \<longleftrightarrow> byte32_is_zero (op_tx_hash p) \<and> op_index p = - 1"

definition new_cellbase_input :: "u64 \<Rightarrow> CellInput" where
  "new_cellbase_input block_number = \<lparr>ci_since = block_number, previous_output = out_point_null\<rparr>"

definition tx_is_cellbase :: "TransactionView \<Rightarrow> bool" where
  "tx_is_cellbase tx \<longleftrightarrow>
     length (inputs tx) = 1 \<and> length (witnesses tx) = 1 \<and>
     out_point_is_null (previous_output (hd (inputs tx)))"

definition proposal_short_id :: "TransactionView \<Rightarrow> ProposalShortId" where
  "proposal_short_id tx = short_id_from_tx_hash (tx_hash tx)"

definition input_pts :: "TransactionView \<Rightarrow> OutPoint list" where
  "input_pts tx = map previous_output (inputs tx)"

definition output_pts :: "TransactionView \<Rightarrow> OutPoint list" where
  "output_pts tx =
     map (\<lambda>x. \<lparr>op_tx_hash = tx_hash tx, op_index = word_of_nat x\<rparr>) [0..<length (outputs tx)]"

definition outputs_with_data :: "TransactionView \<Rightarrow> (CellOutput \<times> u8 list) list" where
  "outputs_with_data tx = zip (outputs tx) (outputs_data tx)"

text \<open>\<open>output_with_data\<close> panics (inner \<open>None\<close>) when an output has no data.\<close>

definition get_nth :: "'a list \<Rightarrow> nat \<Rightarrow> 'a option" where
  "get_nth xs i = (if i < length xs then Some (xs ! i) else None)"

definition output_with_data :: "TransactionView \<Rightarrow> nat \<Rightarrow> (CellOutput \<times> u8 list) option option" where
  "output_with_data tx idx =
     (case get_nth (outputs tx) idx of
       None \<Rightarrow> Some None
     | Some out \<Rightarrow> map_option (\<lambda>data. Some (out, data)) (get_nth (outputs_data tx) idx))"

definition tx_outputs_capacity :: "TransactionView \<Rightarrow> capacity_error + capacity" where
  "tx_outputs_capacity tx = try_fold safe_add cap_zero (map (\<lambda>o'. shannons (co_capacity o')) (outputs tx))"

section \<open>Occupied capacity\<close>

text \<open>\<open>len + 32 + 1\<close> is \<open>usize\<close> arithmetic on a length of data in memory.\<close>

definition script_occupied_capacity :: "Script \<Rightarrow> capacity_error + capacity" where
  "script_occupied_capacity s = cap_bytes (word_of_nat (length (args s)) + 32 + 1)"

definition occupied_capacity :: "CellOutput \<Rightarrow> capacity \<Rightarrow> capacity_error + capacity" where
  "occupied_capacity out data_capacity =
     r_bind (r_bind (r_bind (cap_bytes 8)
       (\<lambda>x. safe_add x data_capacity))
       (\<lambda>x. r_bind (script_occupied_capacity (co_lock out)) (\<lambda>y. safe_add y x)))
       (\<lambda>x. r_bind
          (case co_type out of None \<Rightarrow> Inr cap_zero | Some t \<Rightarrow> script_occupied_capacity t)
          (\<lambda>y. safe_add y x))"

definition is_lack_of_capacity :: "CellOutput \<Rightarrow> capacity \<Rightarrow> capacity_error + bool" where
  "is_lack_of_capacity out data_capacity =
     r_map (\<lambda>cap. cap > shannons (co_capacity out)) (occupied_capacity out data_capacity)"

definition build_exact_capacity :: "CellOutput \<Rightarrow> capacity \<Rightarrow> capacity_error + CellOutput" where
  "build_exact_capacity self data_capacity =
     r_map (\<lambda>x. self\<lparr>co_capacity := as_u64 x\<rparr>) (occupied_capacity self data_capacity)"

section \<open>Cell metadata and resolved transactions\<close>

record TransactionInfo =
  ti_block_hash :: byte32
  ti_block_number :: u64
  ti_block_epoch :: EpochNumberWithFraction
  ti_index :: nat

definition info_is_cellbase :: "TransactionInfo \<Rightarrow> bool" where
  "info_is_cellbase info \<longleftrightarrow> ti_index info = 0"

definition info_is_genesis :: "TransactionInfo \<Rightarrow> bool" where
  "info_is_genesis info \<longleftrightarrow> ti_block_number info = 0"

record CellMeta =
  cell_output :: CellOutput
  cm_out_point :: OutPoint
  transaction_info :: "TransactionInfo option"
  data_bytes :: u64
  mem_cell_data :: "u8 list option"
  mem_cell_data_hash :: "byte32 option"

definition meta_is_cellbase :: "CellMeta \<Rightarrow> bool" where
  "meta_is_cellbase m =
     (case transaction_info m of None \<Rightarrow> False | Some info \<Rightarrow> info_is_cellbase info)"

definition meta_capacity :: "CellMeta \<Rightarrow> capacity" where
  "meta_capacity m = shannons (co_capacity (cell_output m))"

definition meta_occupied_capacity :: "CellMeta \<Rightarrow> capacity_error + capacity" where
  "meta_occupied_capacity m = r_bind (cap_bytes (data_bytes m)) (occupied_capacity (cell_output m))"

record ResolvedTransaction =
  rtx_transaction :: TransactionView
  resolved_cell_deps :: "CellMeta list"
  resolved_inputs :: "CellMeta list"
  resolved_dep_groups :: "CellMeta list"

definition rtx_is_cellbase :: "ResolvedTransaction \<Rightarrow> bool" where
  "rtx_is_cellbase rtx \<longleftrightarrow> resolved_inputs rtx = []"

definition inputs_capacity :: "ResolvedTransaction \<Rightarrow> capacity_error + capacity" where
  "inputs_capacity rtx = try_fold safe_add cap_zero (map meta_capacity (resolved_inputs rtx))"

definition outputs_capacity :: "ResolvedTransaction \<Rightarrow> capacity_error + capacity" where
  "outputs_capacity rtx = tx_outputs_capacity (rtx_transaction rtx)"

definition related_dep_out_points :: "ResolvedTransaction \<Rightarrow> OutPoint list" where
  "related_dep_out_points rtx =
     map cm_out_point (resolved_cell_deps rtx) @ map cm_out_point (resolved_dep_groups rtx)"

section \<open>Lemmas\<close>

lemma get_nth_Some: "get_nth xs i = Some x \<longleftrightarrow> i < length xs \<and> xs ! i = x"
  by (auto simp: get_nth_def)

lemma length_input_pts [simp]: "length (input_pts tx) = length (inputs tx)"
  by (simp add: input_pts_def)

text \<open>The discriminants are exactly the values \<open>verify_value\<close> accepts, and conversion round-trips.\<close>

lemma u8_even_iff: "v mod 2 = 0 \<longleftrightarrow> v AND 1 = 0" for v :: u8
  by (simp add: and_one_eq)

lemma script_hash_type_of_defined: "script_hash_type_of v \<noteq> None \<longleftrightarrow> verify_value v"
  by (auto simp: script_hash_type_of_def verify_value_def u8_even_iff)

lemma script_hash_type_round_trip:
  "script_hash_type_of v = Some t \<Longrightarrow> script_hash_type_value t = v"
proof -
  assume a: "script_hash_type_of v = Some t"
  have "v AND 1 = 0 \<Longrightarrow> push_bit 1 (drop_bit 1 v) = v"
    using div_mult_mod_eq [of v 2] by (simp add: push_bit_eq_mult drop_bit_eq_div and_one_eq)
  then show ?thesis
    using a by (auto simp: script_hash_type_of_def script_hash_type_value_def split: if_splits)
qed

text \<open>The occupied capacity of a cell in bytes: 8 for the capacity field, the data, and 33 plus the arguments for each script.\<close>

definition script_bytes :: "Script \<Rightarrow> nat" where
  "script_bytes s = length (args s) + 33"

definition cell_bytes :: "CellOutput \<Rightarrow> nat" where
  "cell_bytes out = 8 + script_bytes (co_lock out) +
     (case co_type out of None \<Rightarrow> 0 | Some t \<Rightarrow> script_bytes t)"

definition cell_in_memory :: "CellOutput \<Rightarrow> bool" where
  "cell_in_memory out \<longleftrightarrow> cell_bytes out < 2 ^ 63"

lemma script_occupied_capacity_Inr:
  assumes "script_bytes s < 2 ^ 64"
  shows "script_occupied_capacity s = Inr c \<longleftrightarrow> cap_nat c = script_bytes s * 100000000"
proof -
  have "unat (word_of_nat (length (args s)) :: u64) = length (args s)"
    using assms by (simp add: script_bytes_def unat_of_nat)
  then have "unat (word_of_nat (length (args s)) + 32 + 1 :: u64) = script_bytes s"
    using assms by (simp add: script_bytes_def unat_word_ariths)
  then show ?thesis by (simp add: script_occupied_capacity_def cap_simps)
qed

text \<open>Chained additions: each step is a sum of the amounts before it.\<close>

lemma cap_nat_surj: "n \<le> cap_nat c \<Longrightarrow> \<exists>x. cap_nat x = n"
  using unat_lt2p [of "as_u64 c"] by (intro exI [of _ "Capacity (word_of_nat n)"]) (simp add: unat_of_nat)

lemma bind_safe_add:
  assumes "\<And>x. X = Inr x \<longleftrightarrow> cap_nat x = n"
  shows "r_bind X (\<lambda>x. safe_add x d) = Inr c \<longleftrightarrow> cap_nat c = n + cap_nat d"
  using cap_nat_surj [of n c] by (auto simp: r_bind_Inr cap_simps assms)

lemma bind_bind_safe_add:
  assumes "\<And>x. X = Inr x \<longleftrightarrow> cap_nat x = n" "\<And>y. Y = Inr y \<longleftrightarrow> cap_nat y = m"
  shows "r_bind X (\<lambda>x. r_bind Y (\<lambda>y. safe_add y x)) = Inr c \<longleftrightarrow> cap_nat c = n + m"
  using cap_nat_surj [of n c] cap_nat_surj [of m c]
  by (auto simp: r_bind_Inr cap_simps assms) (metis add.commute)

lemma occupied_capacity_Inr:
  assumes "cell_in_memory out"
  shows "occupied_capacity out d = Inr c \<longleftrightarrow> cap_nat c = cell_bytes out * 100000000 + cap_nat d"
proof -
  let ?t = "case co_type out of None \<Rightarrow> Inr cap_zero | Some t \<Rightarrow> script_occupied_capacity t"
  let ?tb = "case co_type out of None \<Rightarrow> 0 | Some t \<Rightarrow> script_bytes t"
  have small: "script_bytes (co_lock out) < 2 ^ 64"
    using assms by (auto simp: cell_in_memory_def cell_bytes_def split: option.splits)
  have t: "?t = Inr y \<longleftrightarrow> cap_nat y = ?tb * 100000000" for y
    using assms
    by (auto simp: cell_in_memory_def cell_bytes_def script_occupied_capacity_Inr cap_nat_eq_iff
        split: option.splits)
  have "cap_bytes 8 = Inr x \<longleftrightarrow> cap_nat x = 800000000" for x
    by (simp add: cap_simps)
  note 1 = bind_safe_add [OF this, of d]
  note 2 = bind_bind_safe_add [OF 1 script_occupied_capacity_Inr [OF small]]
  show ?thesis
    unfolding occupied_capacity_def bind_bind_safe_add [OF 2 t] by (simp add: cell_bytes_def algebra_simps)
qed

text \<open>A cell built with exact capacity never lacks capacity.\<close>

lemma build_exact_capacity_enough:
  assumes "build_exact_capacity out d = Inr out'"
  shows "is_lack_of_capacity out' d = Inr False"
proof -
  obtain x where x: "occupied_capacity out d = Inr x" and out': "out' = out\<lparr>co_capacity := as_u64 x\<rparr>"
    using assms by (auto simp: build_exact_capacity_def r_map_Inr)
  have "occupied_capacity out' d = Inr x"
    using x by (simp add: out' occupied_capacity_def)
  then show ?thesis
    by (simp add: is_lack_of_capacity_def out' cap_less_iff)
qed

section \<open>Properties\<close>

text \<open>C11. The occupied capacity of a cell is one CKByte (\<open>10\<close> to the \<open>8\<close> shannons) for each of the 8
  bytes of its capacity field, of its data, and of its scripts (33 bytes plus the arguments each);
  it is an error exactly when that amount does not fit \<open>u64\<close>; and a cell built with exact capacity holds enough.\<close>

theorem occupied_capacity_exact:
  assumes "cell_in_memory out"
  shows "(occupied_capacity out d = Inr c \<longleftrightarrow> cap_nat c = cell_bytes out * 100000000 + cap_nat d) \<and>
         (build_exact_capacity out d = Inr out' \<longrightarrow> is_lack_of_capacity out' d = Inr False)"
  using occupied_capacity_Inr [OF assms] build_exact_capacity_enough by blast

theorem occupied_capacity_exact_witness:
  "occupied_capacity \<lparr>co_capacity = 0, co_lock = \<lparr>code_hash = [], hash_type = 0, args = [1, 2]\<rparr>, co_type = None\<rparr>
     cap_zero = Inr (Capacity 4300000000)"
proof -
  let ?c = "\<lparr>co_capacity = 0, co_lock = \<lparr>code_hash = [], hash_type = 0, args = [1, 2]\<rparr>, co_type = None\<rparr> :: CellOutput"
  have "cell_in_memory ?c" by (simp add: cell_in_memory_def cell_bytes_def script_bytes_def)
  from conjunct1 [OF occupied_capacity_exact [OF this]] show ?thesis
    by (simp add: cell_bytes_def script_bytes_def)
qed

end
