(* ===== verification/Cell_Resolve.thy ===== *)
theory Cell_Resolve
  imports Chain_Types
begin

text \<open>
  \<open>util/types/src/core/cell.rs\<close>: turning a transaction's out-points into cells. Providers
  and checkers are traits in the source, so they are arguments here: \<open>cell\<close> is
  \<open>CellProvider::cell\<close>, \<open>is_live\<close> is \<open>CellChecker::is_live\<close>, \<open>check_valid\<close> is
  \<open>HeaderChecker::check_valid\<close>. The molecule decoder of a dep group's data is the argument
  \<open>parse\<close>, the data hash the argument \<open>data_hash\<close>. \<open>SYSTEM_CELL\<close> is the argument
  \<open>sys\<close>, \<open>None\<close> while the cache is not set.

  The lemmas show that resolution is sound (every resolved cell is a live cell of the provider),
  that the inputs resolved over a whole block are pairwise distinct (no double spend inside a
  block), that the expansion of dep groups is bounded, and that the later \<open>check\<close> of a
  resolved transaction accepts what resolution accepted.
\<close>

datatype OutPointError = Dead OutPoint | Unknown OutPoint | OutOfOrder OutPoint
  | InvalidDepGroup OutPoint | InvalidHeader byte32 | OverMaxDepExpansionLimit
  | PanicExpect \<comment> \<open>an \<open>expect\<close> or an index out of range\<close>

datatype CellStatus = LiveCell CellMeta | DeadCell | UnknownCell

datatype ResolvedDep = DepCell CellMeta | DepGroupCells CellMeta "CellMeta list"

type_synonym SystemCellMap = "CellDep \<rightharpoonup> ResolvedDep"
type_synonym cell_provider = "OutPoint \<Rightarrow> bool \<Rightarrow> CellStatus option" \<comment> \<open>\<open>None\<close>: the call panics\<close>
type_synonym cell_cache = "OutPoint \<times> bool \<rightharpoonup> CellMeta"

definition MAX_DEP_EXPANSION_LIMIT :: nat where
  "MAX_DEP_EXPANSION_LIMIT = 2048"

section \<open>Providers and checkers\<close>

definition overlay_is_live :: "(OutPoint \<Rightarrow> bool option) \<Rightarrow> (OutPoint \<Rightarrow> bool option) \<Rightarrow> OutPoint \<Rightarrow> bool option" where
  "overlay_is_live over base p = (case over p of Some b \<Rightarrow> Some b | None \<Rightarrow> base p)"

definition overlay_cell :: "cell_provider \<Rightarrow> cell_provider \<Rightarrow> cell_provider" where
  "overlay_cell over base p eager_load =
     (case over p eager_load of
       None \<Rightarrow> None
     | Some (LiveCell m) \<Rightarrow> Some (LiveCell m)
     | Some DeadCell \<Rightarrow> Some DeadCell
     | Some UnknownCell \<Rightarrow> base p eager_load)"

text \<open>\<open>BlockCellProvider::new\<close>: the index of each transaction hash (a later duplicate
  overwrites), and the check that no transaction refers to itself or to a later one.\<close>

definition output_indices :: "BlockView \<Rightarrow> byte32 \<rightharpoonup> nat" where
  "output_indices block =
     map_of (rev (map (\<lambda>(idx, tx). (tx_hash tx, idx)) (enumerate 0 (b_transactions block))))"

definition order_check :: "(byte32 \<rightharpoonup> nat) \<Rightarrow> nat \<Rightarrow> OutPoint \<Rightarrow> OutPointError + unit" where
  "order_check indices idx p =
     (case indices (op_tx_hash p) of
       Some output_idx \<Rightarrow> if output_idx \<ge> idx then Inl (OutOfOrder p) else Inr ()
     | None \<Rightarrow> Inr ())"

definition block_cell_provider_new :: "BlockView \<Rightarrow> OutPointError + (byte32 \<rightharpoonup> nat)" where
  "block_cell_provider_new block =
     r_bind
       (try_each
         (\<lambda>(idx, tx).
            r_then (try_each (order_check (output_indices block) idx) (map cd_out_point (cell_deps tx)))
                   (try_each (order_check (output_indices block) idx) (input_pts tx)))
         (enumerate 0 (b_transactions block)))
       (\<lambda>_. Inr (output_indices block))"

text \<open>\<open>expect("must exists")\<close> panics when an output has no data.\<close>

definition block_cell :: "(u8 list \<Rightarrow> byte32) \<Rightarrow> (byte32 \<rightharpoonup> nat) \<Rightarrow> BlockView \<Rightarrow> cell_provider" where
  "block_cell data_hash indices block p eager_load =
     (case indices (op_tx_hash p) of
       None \<Rightarrow> Some UnknownCell
     | Some i \<Rightarrow>
         (case get_nth (b_transactions block) i of
           None \<Rightarrow> None
         | Some tx \<Rightarrow>
             (case output_with_data tx (unat (op_index p)) of
               None \<Rightarrow> None
             | Some None \<Rightarrow> Some UnknownCell
             | Some (Some (out, data)) \<Rightarrow>
                 Some (LiveCell
                   \<lparr>cell_output = out, cm_out_point = p,
                    transaction_info = Some
                      \<lparr>ti_block_hash = h_hash (b_header block),
                       ti_block_number = h_number (b_header block),
                       ti_block_epoch = h_epoch (b_header block), ti_index = i\<rparr>,
                    data_bytes = word_of_nat (length data),
                    mem_cell_data = Some data, mem_cell_data_hash = Some (data_hash data)\<rparr>))))"

definition transactions_checker_new :: "TransactionView list \<Rightarrow> byte32 \<rightharpoonup> CellOutput list" where
  "transactions_checker_new txs = map_of (rev (map (\<lambda>tx. (tx_hash tx, outputs tx)) txs))"

definition transactions_checker_insert ::
    "(byte32 \<rightharpoonup> CellOutput list) \<Rightarrow> TransactionView \<Rightarrow> (byte32 \<rightharpoonup> CellOutput list)" where
  "transactions_checker_insert inner tx = inner(tx_hash tx \<mapsto> outputs tx)"

definition transactions_checker_is_live :: "(byte32 \<rightharpoonup> CellOutput list) \<Rightarrow> OutPoint \<Rightarrow> bool option" where
  "transactions_checker_is_live inner p =
     (case inner (op_tx_hash p) of
       None \<Rightarrow> None
     | Some outs \<Rightarrow> map_option (\<lambda>_. True) (get_nth outs (unat (op_index p))))"

definition cell_meta_default :: CellMeta where
  "cell_meta_default =
     \<lparr>cell_output = \<lparr>co_capacity = 0,
        co_lock = \<lparr>code_hash = replicate 32 0, hash_type = 0, args = []\<rparr>, co_type = None\<rparr>,
      cm_out_point = \<lparr>op_tx_hash = replicate 32 0, op_index = 0\<rparr>,
      transaction_info = None, data_bytes = 0, mem_cell_data = None, mem_cell_data_hash = None\<rparr>"

definition from_cell_output :: "(u8 list \<Rightarrow> byte32) \<Rightarrow> CellOutput \<Rightarrow> u8 list \<Rightarrow> CellMeta" where
  "from_cell_output data_hash out data =
     cell_meta_default\<lparr>cell_output := out, data_bytes := word_of_nat (length data),
       mem_cell_data_hash := Some (data_hash data), mem_cell_data := Some data\<rparr>"

definition transactions_provider_new :: "TransactionView list \<Rightarrow> byte32 \<rightharpoonup> TransactionView" where
  "transactions_provider_new txs = map_of (rev (map (\<lambda>tx. (tx_hash tx, tx)) txs))"

definition transactions_provider_insert ::
    "(byte32 \<rightharpoonup> TransactionView) \<Rightarrow> TransactionView \<Rightarrow> (byte32 \<rightharpoonup> TransactionView)" where
  "transactions_provider_insert txs tx = txs(tx_hash tx \<mapsto> tx)"

definition transactions_cell :: "(u8 list \<Rightarrow> byte32) \<Rightarrow> (byte32 \<rightharpoonup> TransactionView) \<Rightarrow> cell_provider" where
  "transactions_cell data_hash txs p eager_load =
     (case txs (op_tx_hash p) of
       None \<Rightarrow> Some UnknownCell
     | Some tx \<Rightarrow>
         (case output_with_data tx (unat (op_index p)) of
           None \<Rightarrow> None
         | Some None \<Rightarrow> Some UnknownCell
         | Some (Some (out, data)) \<Rightarrow>
             Some (LiveCell ((from_cell_output data_hash out data)\<lparr>cm_out_point := p\<rparr>))))"

section \<open>Resolution\<close>

definition dummy_resolve :: "TransactionView \<Rightarrow> ResolvedTransaction" where
  "dummy_resolve tx =
     (let meta = \<lambda>p. cell_meta_default\<lparr>cm_out_point := p\<rparr>;
          of_type = \<lambda>d. map (\<lambda>dep. meta (cd_out_point dep))
                        (filter (\<lambda>dep. cd_dep_type dep = dep_type_value d) (cell_deps tx))
      in \<lparr>rtx_transaction = tx, resolved_cell_deps = of_type Code,
          resolved_inputs = (if \<not> tx_is_cellbase tx then map meta (input_pts tx) else []),
          resolved_dep_groups = of_type DepGroup\<rparr>)"

text \<open>The closure \<open>resolve_cell\<close>: the inputs already spent, then the cache, then the provider.\<close>

definition resolve_cell ::
    "OutPoint set \<Rightarrow> cell_provider \<Rightarrow> cell_cache \<Rightarrow> OutPoint \<Rightarrow> bool \<Rightarrow> OutPointError + (CellMeta \<times> cell_cache)" where
  "resolve_cell seen cell cache p eager_load =
     (if p \<in> seen then Inl (Dead p)
      else (case cache (p, eager_load) of
        Some m \<Rightarrow> Inr (m, cache)
      | None \<Rightarrow>
          (case cell p eager_load of
            None \<Rightarrow> Inl PanicExpect
          | Some DeadCell \<Rightarrow> Inl (Dead p)
          | Some UnknownCell \<Rightarrow> Inl (Unknown p)
          | Some (LiveCell m) \<Rightarrow> Inr (m, cache((p, eager_load) \<mapsto> m)))))"

text \<open>The input loop, with \<open>current_inputs\<close> as a set; and a loop of plain \<open>resolve_cell\<close> calls.\<close>

fun resolve_inputs ::
    "OutPoint set \<Rightarrow> cell_provider \<Rightarrow> OutPoint list \<Rightarrow> OutPoint set \<Rightarrow> cell_cache
     \<Rightarrow> OutPointError + (CellMeta list \<times> OutPoint set \<times> cell_cache)" where
  "resolve_inputs seen cell [] current cache = Inr ([], current, cache)"
| "resolve_inputs seen cell (p # ps) current cache =
     (if p \<in> current then Inl (Dead p)
      else r_bind (resolve_cell seen cell cache p False)
        (\<lambda>(m, cache'). r_bind (resolve_inputs seen cell ps (insert p current) cache')
          (\<lambda>(ms, current', cache''). Inr (m # ms, current', cache''))))"

fun resolve_cells ::
    "OutPoint set \<Rightarrow> cell_provider \<Rightarrow> OutPoint list \<Rightarrow> bool \<Rightarrow> cell_cache
     \<Rightarrow> OutPointError + (CellMeta list \<times> cell_cache)" where
  "resolve_cells seen cell [] eager_load cache = Inr ([], cache)"
| "resolve_cells seen cell (p # ps) eager_load cache =
     r_bind (resolve_cell seen cell cache p eager_load)
       (\<lambda>(m, cache'). r_bind (resolve_cells seen cell ps eager_load cache')
         (\<lambda>(ms, cache''). Inr (m # ms, cache'')))"

record dep_state =
  ds_cell_deps :: "CellMeta list"
  ds_dep_groups :: "CellMeta list"
  ds_slots :: nat
  ds_cache :: cell_cache

definition take_slots :: "nat \<Rightarrow> nat \<Rightarrow> OutPointError + nat" where
  "take_slots slots n = (if n \<le> slots then Inr (slots - n) else Inl OverMaxDepExpansionLimit)"

definition parse_dep_group_data :: "(u8 list \<Rightarrow> OutPoint list option) \<Rightarrow> u8 list \<Rightarrow> OutPoint list option" where
  "parse_dep_group_data parse data =
     (if data = [] then None
      else (case parse data of
        None \<Rightarrow> None
      | Some v \<Rightarrow> if v = [] then None else Some v))"

definition get_related_dep_out_points ::
    "(u8 list \<Rightarrow> OutPoint list option) \<Rightarrow> TransactionView \<Rightarrow> (OutPoint \<Rightarrow> u8 list option)
     \<Rightarrow> string + OutPoint list" where
  "get_related_dep_out_points parse tx get_cell_data =
     try_fold (\<lambda>out_points dep.
         if cd_dep_type dep = dep_type_value DepGroup
         then r_bind (ok_or ''Can not get cell data'' (get_cell_data (cd_out_point dep))) (\<lambda>data.
              r_bind (ok_or ''Invalid data'' (parse_dep_group_data parse data)) (\<lambda>sub_out_points.
                Inr (out_points @ sub_out_points @ [cd_out_point dep])))
         else Inr (out_points @ [cd_out_point dep]))
       [] (cell_deps tx)"

definition resolve_transaction_dep ::
    "(u8 list \<Rightarrow> OutPoint list option) \<Rightarrow> OutPoint set \<Rightarrow> cell_provider \<Rightarrow> bool \<Rightarrow> dep_state \<Rightarrow> CellDep
     \<Rightarrow> OutPointError + dep_state" where
  "resolve_transaction_dep parse seen cell eager_load ds cell_dep =
     (if cd_dep_type cell_dep = dep_type_value DepGroup
      then
        r_bind (resolve_cell seen cell (ds_cache ds) (cd_out_point cell_dep) True) (\<lambda>(dep_group, cache).
          (case mem_cell_data dep_group of
            None \<Rightarrow> Inl PanicExpect
          | Some data \<Rightarrow>
              (case parse_dep_group_data parse data of
                None \<Rightarrow> Inl (InvalidDepGroup (cd_out_point cell_dep))
              | Some sub_out_points \<Rightarrow>
                  r_bind (take_slots (ds_slots ds) (length sub_out_points)) (\<lambda>slots.
                  r_bind (resolve_cells seen cell sub_out_points eager_load cache) (\<lambda>(ms, cache').
                    Inr (ds\<lparr>ds_cell_deps := ds_cell_deps ds @ ms,
                            ds_dep_groups := ds_dep_groups ds @ [dep_group],
                            ds_slots := slots, ds_cache := cache'\<rparr>))))))
      else
        r_bind (take_slots (ds_slots ds) 1) (\<lambda>slots.
        r_bind (resolve_cell seen cell (ds_cache ds) (cd_out_point cell_dep) eager_load) (\<lambda>(m, cache).
          Inr (ds\<lparr>ds_cell_deps := ds_cell_deps ds @ [m], ds_slots := slots, ds_cache := cache\<rparr>))))"

definition resolve_system_dep :: "dep_state \<Rightarrow> ResolvedDep \<Rightarrow> OutPointError + dep_state" where
  "resolve_system_dep ds dep =
     (case dep of
       DepCell m \<Rightarrow>
         r_bind (take_slots (ds_slots ds) 1) (\<lambda>slots.
           Inr (ds\<lparr>ds_cell_deps := ds_cell_deps ds @ [m], ds_slots := slots\<rparr>))
     | DepGroupCells g ms \<Rightarrow>
         r_bind (take_slots (ds_slots ds) (length ms)) (\<lambda>slots.
           Inr (ds\<lparr>ds_dep_groups := ds_dep_groups ds @ [g],
                   ds_cell_deps := ds_cell_deps ds @ ms, ds_slots := slots\<rparr>)))"

definition resolve_transaction_deps_with_system_cell_cache ::
    "(u8 list \<Rightarrow> OutPoint list option) \<Rightarrow> SystemCellMap option \<Rightarrow> OutPoint set \<Rightarrow> cell_provider
     \<Rightarrow> cell_cache \<Rightarrow> TransactionView \<Rightarrow> OutPointError + dep_state" where
  "resolve_transaction_deps_with_system_cell_cache parse sys seen cell cache tx =
     try_fold
       (\<lambda>ds cell_dep.
          (case sys of
            None \<Rightarrow> resolve_transaction_dep parse seen cell False ds cell_dep
          | Some system_cell \<Rightarrow>
              (case system_cell cell_dep of
                Some dep \<Rightarrow> resolve_system_dep ds dep
              | None \<Rightarrow> resolve_transaction_dep parse seen cell False ds cell_dep)))
       \<lparr>ds_cell_deps = [], ds_dep_groups = [], ds_slots = MAX_DEP_EXPANSION_LIMIT, ds_cache = cache\<rparr>
       (cell_deps tx)"

definition resolve_transaction ::
    "(u8 list \<Rightarrow> OutPoint list option) \<Rightarrow> SystemCellMap option \<Rightarrow> cell_provider
     \<Rightarrow> (byte32 \<Rightarrow> OutPointError + unit) \<Rightarrow> TransactionView \<Rightarrow> OutPoint set
     \<Rightarrow> OutPointError + (ResolvedTransaction \<times> OutPoint set)" where
  "resolve_transaction parse sys cell check_valid tx seen =
     r_bind
       (if tx_is_cellbase tx then Inr ([], {}, Map.empty)
        else resolve_inputs seen cell (input_pts tx) {} Map.empty) (\<lambda>(ms, current, cache).
     r_bind (resolve_transaction_deps_with_system_cell_cache parse sys seen cell cache tx) (\<lambda>ds.
     r_then (try_each check_valid (header_deps tx))
       (Inr (\<lparr>rtx_transaction = tx, resolved_cell_deps = ds_cell_deps ds,
              resolved_inputs = ms, resolved_dep_groups = ds_dep_groups ds\<rparr>,
             seen \<union> current))))"

text \<open>\<open>chain/src/verify.rs\<close>: the transactions of a block, resolved in order.\<close>

fun resolve_transactions ::
    "(TransactionView \<Rightarrow> OutPoint set \<Rightarrow> OutPointError + (ResolvedTransaction \<times> OutPoint set))
     \<Rightarrow> TransactionView list \<Rightarrow> OutPoint set \<Rightarrow> OutPointError + ResolvedTransaction list" where
  "resolve_transactions resolve [] seen = Inr []"
| "resolve_transactions resolve (tx # txs) seen =
     r_bind (resolve tx seen) (\<lambda>(rtx, seen').
     r_bind (resolve_transactions resolve txs seen') (\<lambda>rtxs. Inr (rtx # rtxs)))"

definition resolve_block_transactions ::
    "(u8 list \<Rightarrow> byte32) \<Rightarrow> (u8 list \<Rightarrow> OutPoint list option) \<Rightarrow> SystemCellMap option \<Rightarrow> cell_provider
     \<Rightarrow> (byte32 \<Rightarrow> OutPointError + unit) \<Rightarrow> BlockView \<Rightarrow> OutPointError + ResolvedTransaction list" where
  "resolve_block_transactions data_hash parse sys store_cell check_valid block =
     r_bind (block_cell_provider_new block) (\<lambda>indices.
       resolve_transactions
         (resolve_transaction parse sys (overlay_cell (block_cell data_hash indices block) store_cell) check_valid)
         (b_transactions block) {})"

section \<open>The system cell cache\<close>

definition build_cell_meta_from_out_point :: "cell_provider \<Rightarrow> OutPoint \<Rightarrow> OutPointError + CellMeta" where
  "build_cell_meta_from_out_point cell p =
     (case cell p True of
       None \<Rightarrow> Inl PanicExpect
     | Some DeadCell \<Rightarrow> Inl (Dead p)
     | Some UnknownCell \<Rightarrow> Inl (Unknown p)
     | Some (LiveCell m) \<Rightarrow> Inr m)"

fun build_cells :: "cell_provider \<Rightarrow> OutPoint list \<Rightarrow> OutPointError + CellMeta list" where
  "build_cells cell [] = Inr []"
| "build_cells cell (p # ps) =
     r_bind (build_cell_meta_from_out_point cell p) (\<lambda>m.
     r_bind (build_cells cell ps) (\<lambda>ms. Inr (m # ms)))"

definition resolve_dep_group ::
    "(u8 list \<Rightarrow> OutPoint list option) \<Rightarrow> cell_provider \<Rightarrow> OutPoint \<Rightarrow> OutPointError + (CellMeta \<times> CellMeta list)" where
  "resolve_dep_group parse cell p =
     r_bind (build_cell_meta_from_out_point cell p) (\<lambda>dep_group.
       (case mem_cell_data dep_group of
         None \<Rightarrow> Inl PanicExpect
       | Some data \<Rightarrow>
           (case parse_dep_group_data parse data of
             None \<Rightarrow> Inl (InvalidDepGroup p)
           | Some sub_out_points \<Rightarrow>
               r_bind (build_cells cell sub_out_points) (\<lambda>ms. Inr (dep_group, ms)))))"

definition dep_of :: "OutPoint \<Rightarrow> DepType \<Rightarrow> CellDep" where
  "dep_of p d = \<lparr>cd_out_point = p, cd_dep_type = dep_type_value d\<rparr>"

text \<open>Every failure of \<open>setup_system_cell_cache\<close> is an \<open>expect\<close>: a panic, \<open>None\<close>.\<close>

definition system_code :: "cell_provider \<Rightarrow> OutPoint \<Rightarrow> (CellDep \<times> ResolvedDep) option" where
  "system_code cell p =
     (case build_cell_meta_from_out_point cell p of
       Inl _ \<Rightarrow> None | Inr m \<Rightarrow> Some (dep_of p Code, DepCell m))"

definition system_group ::
    "(u8 list \<Rightarrow> OutPoint list option) \<Rightarrow> cell_provider \<Rightarrow> OutPoint \<Rightarrow> (CellDep \<times> ResolvedDep) option" where
  "system_group parse cell p =
     (case resolve_dep_group parse cell p of
       Inl _ \<Rightarrow> None | Inr (g, ms) \<Rightarrow> Some (dep_of p DepGroup, DepGroupCells g ms))"

definition setup_system_cell_cache ::
    "(u8 list \<Rightarrow> OutPoint list option) \<Rightarrow> BlockView \<Rightarrow> cell_provider \<Rightarrow> SystemCellMap option" where
  "setup_system_cell_cache parse genesis cell =
     (case (get_nth (b_transactions genesis) 0, get_nth (b_transactions genesis) 1) of
       (Some t0, Some t1) \<Rightarrow>
         (let h0 = tx_hash t0; h1 = tx_hash t1
          in case (system_code cell \<lparr>op_tx_hash = h0, op_index = 1\<rparr>,
                   system_code cell \<lparr>op_tx_hash = h0, op_index = 2\<rparr>,
                   system_code cell \<lparr>op_tx_hash = h0, op_index = 3\<rparr>,
                   system_group parse cell \<lparr>op_tx_hash = h1, op_index = 0\<rparr>,
                   system_group parse cell \<lparr>op_tx_hash = h1, op_index = 1\<rparr>) of
               (Some (d1, r1), Some (d2, r2), Some (d3, r3), Some (d4, r4), Some (d5, r5)) \<Rightarrow>
                 Some (Map.empty(d1 \<mapsto> r1, d2 \<mapsto> r2, d3 \<mapsto> r3, d4 \<mapsto> r4, d5 \<mapsto> r5))
             | _ \<Rightarrow> None)
     | _ \<Rightarrow> None)"

section \<open>Checking a resolved transaction again\<close>

definition check_cell ::
    "OutPoint set \<Rightarrow> (OutPoint \<Rightarrow> bool option) \<Rightarrow> OutPoint set \<Rightarrow> OutPoint \<Rightarrow> OutPointError + OutPoint set" where
  "check_cell seen is_live checked p =
     (if p \<in> seen then Inl (Dead p)
      else if p \<in> checked then Inr checked
      else (case is_live p of
        Some True \<Rightarrow> Inr (insert p checked)
      | Some False \<Rightarrow> Inl (Dead p)
      | None \<Rightarrow> Inl (Unknown p)))"

definition check_dep_group ::
    "SystemCellMap \<Rightarrow> OutPoint set \<Rightarrow> (OutPoint \<Rightarrow> bool option)
     \<Rightarrow> OutPoint set \<times> OutPoint set \<Rightarrow> CellMeta \<Rightarrow> OutPointError + (OutPoint set \<times> OutPoint set)" where
  "check_dep_group system_cell seen is_live st m =
     (case st of (checked, system_deps) \<Rightarrow>
       (case system_cell (dep_of (cm_out_point m) DepGroup) of
         Some (DepGroupCells g ms) \<Rightarrow> Inr (checked, system_deps \<union> set (map cm_out_point ms))
       | _ \<Rightarrow> r_map (\<lambda>checked'. (checked', system_deps))
                (check_cell seen is_live checked (cm_out_point m))))"

definition check_code_dep ::
    "SystemCellMap \<Rightarrow> OutPoint set \<Rightarrow> OutPoint set \<Rightarrow> (OutPoint \<Rightarrow> bool option)
     \<Rightarrow> OutPoint set \<Rightarrow> CellMeta \<Rightarrow> OutPointError + OutPoint set" where
  "check_code_dep system_cell system_deps seen is_live checked m =
     (if system_cell (dep_of (cm_out_point m) Code) = None \<and> cm_out_point m \<notin> system_deps
      then check_cell seen is_live checked (cm_out_point m)
      else Inr checked)"

definition rtx_check ::
    "SystemCellMap option \<Rightarrow> (OutPoint \<Rightarrow> bool option) \<Rightarrow> (byte32 \<Rightarrow> OutPointError + unit)
     \<Rightarrow> ResolvedTransaction \<Rightarrow> OutPoint set \<Rightarrow> OutPointError + OutPoint set" where
  "rtx_check sys is_live check_valid rtx seen =
     r_bind (try_fold (check_cell seen is_live) {} (map cm_out_point (resolved_inputs rtx))) (\<lambda>checked.
     r_bind
       (case sys of
         Some system_cell \<Rightarrow>
           r_bind (try_fold (check_dep_group system_cell seen is_live) (checked, {}) (resolved_dep_groups rtx))
             (\<lambda>(checked', system_deps).
               try_fold (check_code_dep system_cell system_deps seen is_live) checked' (resolved_cell_deps rtx))
       | None \<Rightarrow>
           try_fold (check_cell seen is_live) checked
             (map cm_out_point (resolved_cell_deps rtx @ resolved_dep_groups rtx))) (\<lambda>_.
     r_then (try_each check_valid (header_deps (rtx_transaction rtx)))
       (Inr (seen \<union> set (map cm_out_point (resolved_inputs rtx))))))"

section \<open>Resolution is sound\<close>

text \<open>The cache only ever holds the provider's own answers, so it is invisible.\<close>

definition cache_ok :: "cell_provider \<Rightarrow> cell_cache \<Rightarrow> bool" where
  "cache_ok cell cache \<longleftrightarrow> (\<forall>p e m. cache (p, e) = Some m \<longrightarrow> cell p e = Some (LiveCell m))"

lemma cache_ok_empty [simp]: "cache_ok cell Map.empty"
  by (simp add: cache_ok_def)

lemma resolve_cell_Inr:
  assumes "cache_ok cell cache"
  shows "(\<exists>cache'. resolve_cell seen cell cache p e = Inr (m, cache')) \<longleftrightarrow>
           p \<notin> seen \<and> cell p e = Some (LiveCell m)"
  using assms
  by (auto simp: resolve_cell_def cache_ok_def split: if_splits option.splits CellStatus.splits)

lemma resolve_cell_sound:
  assumes "resolve_cell seen cell cache p e = Inr (m, cache')" "cache_ok cell cache"
  shows "p \<notin> seen" "cell p e = Some (LiveCell m)" "cache_ok cell cache'"
  using assms
  by (auto simp: resolve_cell_def cache_ok_def split: if_splits option.splits CellStatus.splits)

lemma resolve_cell_error:
  assumes "resolve_cell seen cell cache p e = Inl err" "cache_ok cell cache"
  shows "err = Dead p \<and> (p \<in> seen \<or> cell p e = Some DeadCell) \<or>
         err = Unknown p \<and> cell p e = Some UnknownCell \<or> err = PanicExpect \<and> cell p e = None"
  using assms
  by (auto simp: resolve_cell_def cache_ok_def split: if_splits option.splits CellStatus.splits)

lemma resolve_inputs_sound:
  assumes "resolve_inputs seen cell ps current cache = Inr (ms, current', cache')" "cache_ok cell cache"
  shows "distinct ps \<and> set ps \<inter> (current \<union> seen) = {} \<and> current' = current \<union> set ps \<and>
    list_all2 (\<lambda>p m. cell p False = Some (LiveCell m)) ps ms \<and> cache_ok cell cache'"
  using assms
proof (induction ps arbitrary: ms current cache)
  case (Cons p ps)
  obtain m c1 ms1 where 1: "p \<notin> current" "resolve_cell seen cell cache p False = Inr (m, c1)"
    "resolve_inputs seen cell ps (insert p current) c1 = Inr (ms1, current', cache')" "ms = m # ms1"
    using Cons.prems(1) by (auto simp: result_simps split: if_splits)
  note rc = resolve_cell_sound [OF 1(2) Cons.prems(2)]
  show ?case using Cons.IH [OF 1(3) rc(3)] 1 rc by auto
qed auto

lemma resolve_inputs_complete:
  assumes "distinct ps" "set ps \<inter> (current \<union> seen) = {}" "cache_ok cell cache"
    "\<forall>p\<in>set ps. \<exists>m. cell p False = Some (LiveCell m)"
  shows "\<exists>r. resolve_inputs seen cell ps current cache = Inr r"
  using assms
proof (induction ps arbitrary: current cache)
  case (Cons p ps)
  obtain m where "cell p False = Some (LiveCell m)" using Cons.prems by auto
  then obtain cache' where c: "resolve_cell seen cell cache p False = Inr (m, cache')"
    using resolve_cell_Inr [OF Cons.prems(3), of seen p False m] Cons.prems(2) by auto
  have "\<exists>r. resolve_inputs seen cell ps (insert p current) cache' = Inr r"
    using Cons.prems resolve_cell_sound(3) [OF c] by (intro Cons.IH) auto
  then show ?case using c Cons.prems(2) by auto
qed simp

lemma resolve_cells_sound:
  assumes "resolve_cells seen cell ps e cache = Inr (ms, cache')" "cache_ok cell cache"
  shows "set ps \<inter> seen = {} \<and> list_all2 (\<lambda>p m. cell p e = Some (LiveCell m)) ps ms \<and> cache_ok cell cache'"
  using assms
proof (induction ps arbitrary: ms cache)
  case (Cons p ps)
  obtain m c1 ms1 where 1: "resolve_cell seen cell cache p e = Inr (m, c1)"
    "resolve_cells seen cell ps e c1 = Inr (ms1, cache')" "ms = m # ms1"
    using Cons.prems(1) by (auto simp: result_simps)
  note rc = resolve_cell_sound [OF 1(1) Cons.prems(2)]
  show ?case using Cons.IH [OF 1(2) rc(3)] 1 rc by auto
qed auto

text \<open>One dependency: the slots taken are the cells added, and what is added is live or a system cell.\<close>

definition known_cell :: "OutPoint set \<Rightarrow> cell_provider \<Rightarrow> CellMeta \<Rightarrow> bool" where
  "known_cell seen cell m \<longleftrightarrow> (\<exists>p e. p \<notin> seen \<and> cell p e = Some (LiveCell m))"

lemma take_slots_Inr: "take_slots slots n = Inr r \<longleftrightarrow> n \<le> slots \<and> r = slots - n"
  by (auto simp: take_slots_def)

lemma list_all2_known:
  "list_all2 (\<lambda>p m. cell p e = Some (LiveCell m)) ps ms \<Longrightarrow> set ps \<inter> seen = {} \<Longrightarrow> m \<in> set ms
   \<Longrightarrow> known_cell seen cell m"
  by (auto simp: known_cell_def list_all2_conv_all_nth in_set_conv_nth) (metis IntI empty_iff nth_mem)

definition dep_grows :: "(CellMeta \<Rightarrow> bool) \<Rightarrow> (CellMeta \<Rightarrow> bool) \<Rightarrow> cell_provider \<Rightarrow> dep_state \<Rightarrow> dep_state \<Rightarrow> bool" where
  "dep_grows P Q cell ds ds' \<longleftrightarrow>
     (cache_ok cell (ds_cache ds) \<longrightarrow> cache_ok cell (ds_cache ds')) \<and>
     length (ds_cell_deps ds') + ds_slots ds' = length (ds_cell_deps ds) + ds_slots ds \<and>
     (\<exists>ms gs. ds_cell_deps ds' = ds_cell_deps ds @ ms \<and> ds_dep_groups ds' = ds_dep_groups ds @ gs \<and>
        (\<forall>m\<in>set ms. P m) \<and> (\<forall>g\<in>set gs. Q g))"

lemma resolve_transaction_dep_grows:
  assumes "resolve_transaction_dep parse seen cell e ds dep = Inr ds'" "cache_ok cell (ds_cache ds)"
  shows "dep_grows (known_cell seen cell) (known_cell seen cell) cell ds ds'"
proof (cases "cd_dep_type dep = dep_type_value DepGroup")
  case True
  obtain g c1 data sub slots ms c2 where 1:
    "resolve_cell seen cell (ds_cache ds) (cd_out_point dep) True = Inr (g, c1)"
    "length sub \<le> ds_slots ds" "slots = ds_slots ds - length sub"
    "resolve_cells seen cell sub e c1 = Inr (ms, c2)"
    "ds' = ds\<lparr>ds_cell_deps := ds_cell_deps ds @ ms, ds_dep_groups := ds_dep_groups ds @ [g],
             ds_slots := slots, ds_cache := c2\<rparr>"
    using assms True
    by (auto simp: resolve_transaction_dep_def result_simps take_slots_Inr case_option_Inr)
  note g = resolve_cell_sound [OF 1(1) assms(2)]
  have ms: "set sub \<inter> seen = {}" "list_all2 (\<lambda>p m. cell p e = Some (LiveCell m)) sub ms" "cache_ok cell c2"
    using resolve_cells_sound [OF 1(4) g(3)] by auto
  have "known_cell seen cell g" using g by (auto simp: known_cell_def)
  then show ?thesis
    using 1 ms list_all2_known [of cell e sub ms seen, OF ms(2,1)] list_all2_lengthD [OF ms(2)]
    by (auto simp: dep_grows_def)
next
  case False
  then obtain m c1 where 1: "1 \<le> ds_slots ds"
    "resolve_cell seen cell (ds_cache ds) (cd_out_point dep) e = Inr (m, c1)"
    "ds' = ds\<lparr>ds_cell_deps := ds_cell_deps ds @ [m], ds_slots := ds_slots ds - 1, ds_cache := c1\<rparr>"
    using assms by (auto simp: resolve_transaction_dep_def result_simps take_slots_Inr)
  note m = resolve_cell_sound [OF 1(2) assms(2)]
  have "known_cell seen cell m" using m by (auto simp: known_cell_def)
  then show ?thesis using 1 m by (auto simp: dep_grows_def)
qed

lemma resolve_system_dep_grows:
  assumes "resolve_system_dep ds dep = Inr ds'"
  shows "dep_grows
    (\<lambda>m. case dep of DepCell m' \<Rightarrow> m = m' | DepGroupCells g ms \<Rightarrow> m \<in> set ms \<and> g \<in> set (ds_dep_groups ds'))
    (\<lambda>g. case dep of DepCell _ \<Rightarrow> False | DepGroupCells g' ms \<Rightarrow> g = g') cell ds ds'"
  using assms
  by (auto simp: resolve_system_dep_def dep_grows_def result_simps take_slots_Inr split: ResolvedDep.splits)

text \<open>What every resolved dependency of a transaction is.\<close>

definition good_group :: "SystemCellMap option \<Rightarrow> OutPoint set \<Rightarrow> cell_provider \<Rightarrow> CellMeta \<Rightarrow> bool" where
  "good_group sys seen cell g \<longleftrightarrow>
     known_cell seen cell g \<or> (\<exists>f dep ms. sys = Some f \<and> f dep = Some (DepGroupCells g ms))"

definition good_dep :: "SystemCellMap option \<Rightarrow> OutPoint set \<Rightarrow> cell_provider \<Rightarrow> CellMeta set \<Rightarrow> CellMeta \<Rightarrow> bool" where
  "good_dep sys seen cell gs m \<longleftrightarrow>
     known_cell seen cell m \<or>
     (\<exists>f dep. sys = Some f \<and>
        (f dep = Some (DepCell m) \<or> (\<exists>g\<in>gs. \<exists>ms. f dep = Some (DepGroupCells g ms) \<and> m \<in> set ms)))"

definition dep_inv :: "SystemCellMap option \<Rightarrow> OutPoint set \<Rightarrow> cell_provider \<Rightarrow> dep_state \<Rightarrow> bool" where
  "dep_inv sys seen cell ds \<longleftrightarrow>
     cache_ok cell (ds_cache ds) \<and>
     length (ds_cell_deps ds) + ds_slots ds = MAX_DEP_EXPANSION_LIMIT \<and>
     (\<forall>g\<in>set (ds_dep_groups ds). good_group sys seen cell g) \<and>
     (\<forall>m\<in>set (ds_cell_deps ds). good_dep sys seen cell (set (ds_dep_groups ds)) m)"

lemma good_dep_mono: "good_dep sys seen cell gs m \<Longrightarrow> gs \<subseteq> gs' \<Longrightarrow> good_dep sys seen cell gs' m"
  unfolding good_dep_def by blast

lemma dep_inv_grows:
  assumes "dep_inv sys seen cell ds" "dep_grows P Q cell ds ds'"
    "\<And>m. P m \<Longrightarrow> good_dep sys seen cell (set (ds_dep_groups ds')) m"
    "\<And>g. Q g \<Longrightarrow> good_group sys seen cell g"
  shows "dep_inv sys seen cell ds'"
  using assms good_dep_mono [of sys seen cell "set (ds_dep_groups ds)" _ "set (ds_dep_groups ds')"]
  unfolding dep_inv_def dep_grows_def by auto

lemma resolve_deps_inv:
  assumes "resolve_transaction_deps_with_system_cell_cache parse sys seen cell cache tx = Inr ds"
    "cache_ok cell cache"
  shows "dep_inv sys seen cell ds"
  using assms(1) unfolding resolve_transaction_deps_with_system_cell_cache_def
proof (rule try_fold_invariant)
  show "dep_inv sys seen cell
    \<lparr>ds_cell_deps = [], ds_dep_groups = [], ds_slots = MAX_DEP_EXPANSION_LIMIT, ds_cache = cache\<rparr>"
    using assms(2) by (simp add: dep_inv_def)
next
  fix d dep d'
  assume inv: "dep_inv sys seen cell d"
    and step: "(case sys of None \<Rightarrow> resolve_transaction_dep parse seen cell False d dep
      | Some system_cell \<Rightarrow> (case system_cell dep of
          None \<Rightarrow> resolve_transaction_dep parse seen cell False d dep
        | Some dep \<Rightarrow> resolve_system_dep d dep)) = Inr d'"
  consider "resolve_transaction_dep parse seen cell False d dep = Inr d'"
    | f r where "sys = Some f" "f dep = Some r" "resolve_system_dep d r = Inr d'"
    using step by (auto split: option.splits)
  then show "dep_inv sys seen cell d'"
  proof cases
    case 1
    then have "dep_grows (known_cell seen cell) (known_cell seen cell) cell d d'"
      using inv by (auto simp: dep_inv_def intro: resolve_transaction_dep_grows)
    from dep_inv_grows [OF inv this] show ?thesis by (simp add: good_dep_def good_group_def)
  next
    case 2
    show ?thesis
      by (rule dep_inv_grows [OF inv resolve_system_dep_grows [OF 2(3)]])
        (use 2(1,2) in \<open>auto simp: good_dep_def good_group_def split: ResolvedDep.splits\<close>)
  qed
qed

text \<open>A resolved transaction.\<close>

definition spent_inputs :: "TransactionView \<Rightarrow> OutPoint list" where
  "spent_inputs tx = (if tx_is_cellbase tx then [] else input_pts tx)"

lemma resolve_transaction_sound:
  assumes "resolve_transaction parse sys cell check_valid tx seen = Inr (rtx, seen')"
  shows "rtx_transaction rtx = tx"
    and "distinct (spent_inputs tx)" and "set (spent_inputs tx) \<inter> seen = {}"
    and "seen' = seen \<union> set (spent_inputs tx)"
    and "list_all2 (\<lambda>p m. cell p False = Some (LiveCell m)) (spent_inputs tx) (resolved_inputs rtx)"
    and "length (resolved_cell_deps rtx) \<le> MAX_DEP_EXPANSION_LIMIT"
    and "\<forall>g\<in>set (resolved_dep_groups rtx). good_group sys seen cell g"
    and "\<forall>m\<in>set (resolved_cell_deps rtx). good_dep sys seen cell (set (resolved_dep_groups rtx)) m"
    and "\<forall>h\<in>set (header_deps tx). check_valid h = Inr ()"
proof -
  obtain ms current cache ds where 1:
    "(if tx_is_cellbase tx then Inr ([], {}, Map.empty)
      else resolve_inputs seen cell (input_pts tx) {} Map.empty) = Inr (ms, current, cache)"
    "resolve_transaction_deps_with_system_cell_cache parse sys seen cell cache tx = Inr ds"
    "try_each check_valid (header_deps tx) = Inr ()"
    "rtx = \<lparr>rtx_transaction = tx, resolved_cell_deps = ds_cell_deps ds, resolved_inputs = ms,
           resolved_dep_groups = ds_dep_groups ds\<rparr>" "seen' = seen \<union> current"
    using assms by (auto simp: resolve_transaction_def result_simps)
  have 2: "distinct (spent_inputs tx) \<and> set (spent_inputs tx) \<inter> seen = {} \<and> current = set (spent_inputs tx) \<and>
    list_all2 (\<lambda>p m. cell p False = Some (LiveCell m)) (spent_inputs tx) ms \<and> cache_ok cell cache"
    using 1(1) resolve_inputs_sound [of seen cell "input_pts tx" "{}" Map.empty ms current cache]
    by (auto simp: spent_inputs_def split: if_splits)
  have 3: "dep_inv sys seen cell ds" using resolve_deps_inv [OF 1(2)] 2 by blast
  from 1(4,5) 2 show "rtx_transaction rtx = tx" "distinct (spent_inputs tx)" "set (spent_inputs tx) \<inter> seen = {}"
    "seen' = seen \<union> set (spent_inputs tx)"
    "list_all2 (\<lambda>p m. cell p False = Some (LiveCell m)) (spent_inputs tx) (resolved_inputs rtx)" by auto
  from 3 1(4) show "length (resolved_cell_deps rtx) \<le> MAX_DEP_EXPANSION_LIMIT"
    "\<forall>g\<in>set (resolved_dep_groups rtx). good_group sys seen cell g"
    "\<forall>m\<in>set (resolved_cell_deps rtx). good_dep sys seen cell (set (resolved_dep_groups rtx)) m"
    by (auto simp: dep_inv_def)
  from 1(3) show "\<forall>h\<in>set (header_deps tx). check_valid h = Inr ()" by (simp add: result_simps)
qed

section \<open>A block spends every cell at most once\<close>

lemma resolve_transactions_sound:
  assumes "resolve_transactions (resolve_transaction parse sys cell check_valid) txs seen = Inr rtxs"
  shows "map rtx_transaction rtxs = txs \<and> distinct (concat (map spent_inputs txs)) \<and>
    set (concat (map spent_inputs txs)) \<inter> seen = {} \<and>
    list_all2 (\<lambda>tx rtx. list_all2 (\<lambda>p m. cell p False = Some (LiveCell m)) (spent_inputs tx) (resolved_inputs rtx) \<and>
        length (resolved_cell_deps rtx) \<le> MAX_DEP_EXPANSION_LIMIT) txs rtxs"
  using assms
proof (induction txs arbitrary: seen rtxs)
  case (Cons tx txs)
  obtain rtx seen' rest where 1: "resolve_transaction parse sys cell check_valid tx seen = Inr (rtx, seen')"
    "resolve_transactions (resolve_transaction parse sys cell check_valid) txs seen' = Inr rest"
    "rtxs = rtx # rest"
    using Cons.prems by (auto simp: result_simps)
  show ?case
    using Cons.IH [OF 1(2)] resolve_transaction_sound [OF 1(1)] 1(3) by auto
qed simp

text \<open>The transactions of an accepted block only refer to transactions before them.\<close>

lemma output_indices_Some:
  assumes "distinct (map tx_hash (b_transactions block))" "j < length (b_transactions block)"
  shows "output_indices block (tx_hash (b_transactions block ! j)) = Some j"
proof -
  let ?l = "map (\<lambda>(idx, tx). (tx_hash tx, idx)) (enumerate 0 (b_transactions block))"
  have keys: "map fst ?l = map tx_hash (b_transactions block)"
    by (simp add: comp_def case_prod_beta flip: map_map [of tx_hash snd, unfolded comp_def])
  have "(tx_hash (b_transactions block ! j), j) \<in> set ?l"
    using assms(2) by (force simp: in_set_enumerate_eq)
  moreover have "distinct (map fst (rev ?l))"
    using assms(1) keys by (metis distinct_rev rev_map)
  ultimately show ?thesis
    by (simp add: output_indices_def)
qed

lemma Ball_enumerate: "(\<forall>x\<in>set (enumerate 0 xs). P x) \<longleftrightarrow> (\<forall>i<length xs. P (i, xs ! i))"
  by (force simp: in_set_enumerate_eq)

lemma order_check_Inr:
  "order_check indices idx p = Inr u \<longleftrightarrow> (\<forall>i. indices (op_tx_hash p) = Some i \<longrightarrow> i < idx)"
  by (auto simp: order_check_def split: option.splits)

lemma block_cell_provider_new_Inr:
  "block_cell_provider_new block = Inr indices \<longleftrightarrow>
     indices = output_indices block \<and>
     (\<forall>i<length (b_transactions block).
        \<forall>p\<in>set (map cd_out_point (cell_deps (b_transactions block ! i))) \<union> set (input_pts (b_transactions block ! i)).
        \<forall>j. output_indices block (op_tx_hash p) = Some j \<longrightarrow> j < i)"
  unfolding block_cell_provider_new_def by (auto simp: result_simps Ball_enumerate order_check_Inr)

section \<open>Checking again accepts what resolution accepted\<close>

text \<open>
  The contract between a provider and the checker over the same data: live cells carry the
  out-point they were asked for and are live for the checker, and an unknown cell is unknown to it.
\<close>

locale cell_source =
  fixes cell :: cell_provider and is_live :: "OutPoint \<Rightarrow> bool option"
  assumes live_point: "cell p e = Some (LiveCell m) \<Longrightarrow> cm_out_point m = p"
    and live_checked: "cell p e = Some (LiveCell m) \<Longrightarrow> is_live p = Some True"
    and unknown_unchecked: "cell p e = Some UnknownCell \<Longrightarrow> is_live p = None"
begin

lemma known_live: "known_cell seen cell m \<Longrightarrow> cm_out_point m \<notin> seen \<and> is_live (cm_out_point m) = Some True"
  by (auto simp: known_cell_def dest: live_point live_checked)

lemma check_cell_known: "known_cell seen cell m \<Longrightarrow> \<exists>c. check_cell seen is_live checked (cm_out_point m) = Inr c"
  by (auto simp: check_cell_def dest!: known_live)

lemma check_inputs_ok:
  assumes "list_all2 (\<lambda>p m. cell p False = Some (LiveCell m)) ps ms" "set ps \<inter> seen = {}"
  shows "\<exists>c. try_fold (check_cell seen is_live) checked (map cm_out_point ms) = Inr c \<and> True"
proof (rule try_fold_progress)
  fix s p assume "p \<in> set (map cm_out_point ms)"
  then obtain m where "m \<in> set ms" "p = cm_out_point m" by auto
  with list_all2_known [of cell False ps ms seen, OF assms]
  show "\<exists>s'. check_cell seen is_live s p = Inr s' \<and> True"
    using check_cell_known by auto
qed simp

lemma live_points:
  "list_all2 (\<lambda>p m. cell p False = Some (LiveCell m)) ps ms \<Longrightarrow> map cm_out_point ms = ps"
  by (auto simp: list_all2_conv_all_nth live_point intro!: nth_equalityI)

lemma check_plain_deps:
  assumes "\<forall>m\<in>set ms. known_cell seen cell m"
  shows "\<exists>c. try_fold (check_cell seen is_live) checked (map cm_out_point ms) = Inr c \<and> True"
  by (rule try_fold_progress) (use assms check_cell_known in auto)

end

text \<open>The system cell cache maps each dependency to the cells it names.\<close>

definition sys_wf :: "SystemCellMap \<Rightarrow> bool" where
  "sys_wf f \<longleftrightarrow>
     (\<forall>dep m. f dep = Some (DepCell m) \<longrightarrow> dep = dep_of (cm_out_point m) Code) \<and>
     (\<forall>dep g ms. f dep = Some (DepGroupCells g ms) \<longrightarrow> dep = dep_of (cm_out_point g) DepGroup)"

lemma sys_wf_cell: "sys_wf f \<Longrightarrow> f dep = Some (DepCell m) \<Longrightarrow> f (dep_of (cm_out_point m) Code) = Some (DepCell m)"
  unfolding sys_wf_def by metis

lemma sys_wf_group:
  "sys_wf f \<Longrightarrow> f dep = Some (DepGroupCells g ms) \<Longrightarrow> f (dep_of (cm_out_point g) DepGroup) = Some (DepGroupCells g ms)"
  unfolding sys_wf_def by metis

context cell_source
begin

lemma check_group_step:
  assumes "sys_wf f" "good_group (Some f) seen cell g"
  shows "\<exists>c' s'. check_dep_group f seen is_live (c, s) g = Inr (c', s') \<and> s \<subseteq> s' \<and>
     (\<forall>g' ms. f (dep_of (cm_out_point g) DepGroup) = Some (DepGroupCells g' ms) \<longrightarrow> cm_out_point ` set ms \<subseteq> s')"
proof (cases "known_cell seen cell g")
  case True
  then obtain c' where "check_cell seen is_live c (cm_out_point g) = Inr c'" using check_cell_known by blast
  then show ?thesis
    by (auto simp: check_dep_group_def split: option.splits ResolvedDep.splits)
next
  case False
  then obtain ms where "f (dep_of (cm_out_point g) DepGroup) = Some (DepGroupCells g ms)"
    using assms(2) sys_wf_group [OF assms(1)] by (auto simp: good_group_def)
  then show ?thesis by (auto simp: check_dep_group_def)
qed

lemma check_groups:
  assumes "sys_wf f" "\<forall>g\<in>set gs. good_group (Some f) seen cell g"
  shows "\<exists>c' s'. try_fold (check_dep_group f seen is_live) (c, s) gs = Inr (c', s') \<and> s \<subseteq> s' \<and>
     (\<forall>g\<in>set gs. \<forall>g' ms. f (dep_of (cm_out_point g) DepGroup) = Some (DepGroupCells g' ms)
         \<longrightarrow> cm_out_point ` set ms \<subseteq> s')"
  using assms(2)
proof (induction gs arbitrary: c s)
  case (Cons g gs)
  obtain c1 s1 where 1: "check_dep_group f seen is_live (c, s) g = Inr (c1, s1)" "s \<subseteq> s1"
    "\<forall>g' ms. f (dep_of (cm_out_point g) DepGroup) = Some (DepGroupCells g' ms) \<longrightarrow> cm_out_point ` set ms \<subseteq> s1"
    using check_group_step [OF assms(1), of seen g c s] Cons.prems by auto
  obtain c2 s2 where 2: "try_fold (check_dep_group f seen is_live) (c1, s1) gs = Inr (c2, s2)" "s1 \<subseteq> s2"
    "\<forall>g\<in>set gs. \<forall>g' ms. f (dep_of (cm_out_point g) DepGroup) = Some (DepGroupCells g' ms)
         \<longrightarrow> cm_out_point ` set ms \<subseteq> s2"
    using Cons.IH [of c1 s1] Cons.prems by auto
  have "\<forall>g'\<in>set (g # gs). \<forall>g'' ms. f (dep_of (cm_out_point g') DepGroup) = Some (DepGroupCells g'' ms)
         \<longrightarrow> cm_out_point ` set ms \<subseteq> s2"
    using 1(3) 2(3) order_trans [OF _ 2(2)] unfolding list.set ball_simps by blast
  then show ?case using 1(1,2) 2(1,2) by (intro exI [of _ c2] exI [of _ s2]) auto
qed simp

lemma check_system_deps:
  assumes "sys_wf f" "\<forall>g\<in>set gs. good_group (Some f) seen cell g"
    "\<forall>m\<in>set ms. good_dep (Some f) seen cell (set gs) m"
  shows "\<exists>c'. r_bind (try_fold (check_dep_group f seen is_live) (c, {}) gs)
     (\<lambda>(c1, s1). try_fold (check_code_dep f s1 seen is_live) c1 ms) = Inr c'"
proof -
  obtain c1 s1 where 1: "try_fold (check_dep_group f seen is_live) (c, {}) gs = Inr (c1, s1)"
    "\<forall>g\<in>set gs. \<forall>g' ms. f (dep_of (cm_out_point g) DepGroup) = Some (DepGroupCells g' ms)
         \<longrightarrow> cm_out_point ` set ms \<subseteq> s1"
    using check_groups [OF assms(1,2), of c "{}"] by auto
  have "\<exists>c'. check_code_dep f s1 seen is_live c m = Inr c'" if "m \<in> set ms" for m c
  proof (cases "known_cell seen cell m")
    case True
    then show ?thesis using check_cell_known by (auto simp: check_code_dep_def)
  next
    case False
    have "good_dep (Some f) seen cell (set gs) m" using assms(3) that by blast
    with False obtain dep where "f dep = Some (DepCell m) \<or>
        (\<exists>g\<in>set gs. \<exists>ms. f dep = Some (DepGroupCells g ms) \<and> m \<in> set ms)"
      by (auto simp: good_dep_def)
    then consider "f (dep_of (cm_out_point m) Code) = Some (DepCell m)"
      | g ms' where "g \<in> set gs" "f (dep_of (cm_out_point g) DepGroup) = Some (DepGroupCells g ms')" "m \<in> set ms'"
      using sys_wf_cell [OF assms(1)] sys_wf_group [OF assms(1)] by blast
    then show ?thesis
    proof cases
      case 2
      then have "cm_out_point m \<in> s1" using 1(2) by blast
      then show ?thesis by (simp add: check_code_dep_def)
    qed (simp add: check_code_dep_def)
  qed
  then have "\<exists>c'. try_fold (check_code_dep f s1 seen is_live) c1 ms = Inr c' \<and> True"
    by (intro try_fold_progress) auto
  then show ?thesis using 1(1) by auto
qed

lemma check_resolved:
  assumes "resolve_transaction parse sys cell check_valid tx seen = Inr (rtx, seen')"
    "\<And>f. sys = Some f \<Longrightarrow> sys_wf f"
  shows "rtx_check sys is_live check_valid rtx seen = Inr seen'"
proof -
  note r = resolve_transaction_sound [OF assms(1)]
  obtain c where c: "try_fold (check_cell seen is_live) {} (map cm_out_point (resolved_inputs rtx)) = Inr c"
    using check_inputs_ok [OF r(5,3)] by auto
  have d: "\<exists>c'. (case sys of
         Some f \<Rightarrow> r_bind (try_fold (check_dep_group f seen is_live) (c, {}) (resolved_dep_groups rtx))
             (\<lambda>(c', s). try_fold (check_code_dep f s seen is_live) c' (resolved_cell_deps rtx))
       | None \<Rightarrow> try_fold (check_cell seen is_live) c
             (map cm_out_point (resolved_cell_deps rtx @ resolved_dep_groups rtx))) = Inr c'"
  proof (cases sys)
    case None
    then show ?thesis
      using check_plain_deps [of "resolved_cell_deps rtx @ resolved_dep_groups rtx" seen c] r(7,8)
      by (auto simp: good_group_def good_dep_def)
  next
    case (Some f)
    then show ?thesis
      using check_system_deps [of f "resolved_dep_groups rtx" seen "resolved_cell_deps rtx" c] r(7,8) assms(2)
      by auto
  qed
  have h: "try_each check_valid (header_deps (rtx_transaction rtx)) = Inr ()"
    using r(1,9) by (simp add: result_simps)
  show ?thesis
    using c d h r(4) live_points [OF r(5)] by (auto simp: rtx_check_def simp flip: set_map)
qed

end

lemma get_nth_map: "get_nth (map f xs) i = map_option f (get_nth xs i)"
  by (simp add: get_nth_def)

lemma output_with_data_cases:
  "output_with_data tx i = Some None \<longleftrightarrow> get_nth (outputs tx) i = None"
  "output_with_data tx i = Some (Some (out, data)) \<longleftrightarrow>
     get_nth (outputs tx) i = Some out \<and> get_nth (outputs_data tx) i = Some data"
  by (auto simp: output_with_data_def split: option.splits)

lemma transactions_maps_agree:
  "transactions_checker_new txs h = map_option outputs (transactions_provider_new txs h)"
proof -
  have "map_of (map (\<lambda>tx. (tx_hash tx, outputs tx)) ys) h = map_option outputs (map_of (map (\<lambda>tx. (tx_hash tx, tx)) ys) h)"
    for ys by (induction ys) auto
  then show ?thesis
    by (simp add: transactions_checker_new_def transactions_provider_new_def rev_map)
qed

text \<open>The provider and the checker over the same list of transactions keep the contract.\<close>

interpretation txs_source: cell_source
  "transactions_cell data_hash (transactions_provider_new txs)"
  "transactions_checker_is_live (transactions_checker_new txs)" for data_hash txs
  by unfold_locales
    (auto simp: transactions_cell_def transactions_checker_is_live_def transactions_maps_agree
      output_with_data_cases split: option.splits)

text \<open>An overlay of two sources is a source.\<close>

lemma overlay_source:
  assumes over: "cell_source over over_live" and base: "cell_source base base_live"
  shows "cell_source (overlay_cell over base) (overlay_is_live over_live base_live)"
proof
  fix p e m assume a: "overlay_cell over base p e = Some (LiveCell m)"
  then show "cm_out_point m = p"
    using cell_source.live_point [OF over] cell_source.live_point [OF base]
    by (auto simp: overlay_cell_def split: option.splits CellStatus.splits)
  show "overlay_is_live over_live base_live p = Some True"
    using a cell_source.live_checked [OF over, of p e] cell_source.unknown_unchecked [OF over, of p e]
      cell_source.live_checked [OF base, of p e]
    by (auto simp: overlay_cell_def overlay_is_live_def split: option.splits CellStatus.splits)
next
  fix p e assume "overlay_cell over base p e = Some UnknownCell"
  then show "overlay_is_live over_live base_live p = None"
    using cell_source.unknown_unchecked [OF over, of p e] cell_source.unknown_unchecked [OF base, of p e]
    by (auto simp: overlay_cell_def overlay_is_live_def split: option.splits CellStatus.splits)
qed

locale cell_overlay = over: cell_source over over_live + base: cell_source base base_live
  for over over_live base base_live

sublocale cell_overlay \<subseteq> both: cell_source "overlay_cell over base" "overlay_is_live over_live base_live"
  by (rule overlay_source [OF over.cell_source_axioms base.cell_source_axioms])

interpretation txs_overlay: cell_overlay
  "transactions_cell data_hash (transactions_provider_new txs)"
  "transactions_checker_is_live (transactions_checker_new txs)"
  "transactions_cell data_hash (transactions_provider_new txs')"
  "transactions_checker_is_live (transactions_checker_new txs')" for data_hash txs txs'
  by unfold_locales

lemma build_cell_meta_Inr: "build_cell_meta_from_out_point cell p = Inr m \<longleftrightarrow> cell p True = Some (LiveCell m)"
  by (auto simp: build_cell_meta_from_out_point_def split: option.splits CellStatus.splits)

lemma setup_system_cell_cache_wf:
  assumes "setup_system_cell_cache parse genesis cell = Some f"
    "\<And>p e m. cell p e = Some (LiveCell m) \<Longrightarrow> cm_out_point m = p"
  shows "sys_wf f"
proof -
  have code: "system_code cell p = Some (d, r) \<Longrightarrow> \<exists>m. r = DepCell m \<and> d = dep_of (cm_out_point m) Code" for p d r
    using assms(2)
    by (auto simp: system_code_def build_cell_meta_Inr split: sum.splits)
  have group: "system_group parse cell p = Some (d, r) \<Longrightarrow>
      \<exists>g ms. r = DepGroupCells g ms \<and> d = dep_of (cm_out_point g) DepGroup" for p d r
    using assms(2)
    by (auto simp: system_group_def resolve_dep_group_def build_cell_meta_Inr result_simps
        case_option_Inr split: sum.splits)
  show ?thesis
    using assms(1) unfolding setup_system_cell_cache_def Let_def
    by (auto simp: sys_wf_def split: option.splits prod.splits if_splits dest!: code group)
qed

lemma not_isl_Inr: "\<not> isl x \<Longrightarrow> (\<And>y. x = Inr y \<Longrightarrow> P) \<Longrightarrow> P"
  by (cases x) auto

section \<open>Properties\<close>

text \<open>A three-transaction block: a cellbase, a spend of a stored cell, a spend of its output.\<close>

definition ex_output :: CellOutput where
  "ex_output = \<lparr>co_capacity = 100, co_lock = \<lparr>code_hash = [], hash_type = 0, args = []\<rparr>, co_type = None\<rparr>"

definition ex_tx :: "byte32 \<Rightarrow> CellInput list \<Rightarrow> TransactionView" where
  "ex_tx h ins = \<lparr>tx_version = 0, cell_deps = [], header_deps = [], inputs = ins, outputs = [ex_output],
     outputs_data = [[]], witnesses = [[]], tx_hash = h, witness_hash = h\<rparr>"

definition ex_spend :: "byte32 \<Rightarrow> CellInput" where
  "ex_spend h = \<lparr>ci_since = 0, previous_output = \<lparr>op_tx_hash = h, op_index = 0\<rparr>\<rparr>"

definition ex_header :: HeaderView where
  "ex_header = \<lparr>h_version = 0, h_compact_target = 0, h_timestamp = 0, h_number = 1,
     h_epoch = EpochNumberWithFraction 0, h_parent_hash = [], h_transactions_root = [], h_proposals_hash = [],
     h_extra_hash = [], h_dao = [], h_nonce = 0, h_hash = []\<rparr>"

definition ex_block :: BlockView where
  "ex_block = \<lparr>b_header = ex_header, b_uncles = [],
     b_transactions = [ex_tx [1] [new_cellbase_input 1], ex_tx [2] [ex_spend [9]], ex_tx [3] [ex_spend [2]]],
     b_proposals = [], b_extension = None\<rparr>"

definition ex_store :: cell_provider where
  "ex_store = transactions_cell (\<lambda>d. d) (transactions_provider_new [ex_tx [9] []])"

definition ex_store_live :: "OutPoint \<Rightarrow> bool option" where
  "ex_store_live = transactions_checker_is_live (transactions_checker_new [ex_tx [9] []])"

text \<open>C1. If the transactions of a block resolve, then they are resolved in the block's order, each
  input to the live cell the block-over-store provider has for it, the inputs spent by all the
  transactions of the block other than cellbases are pairwise distinct (no cell is spent twice in a block), and
  no transaction expands to more than 2048 dependency cells.\<close>

theorem resolve_block_no_double_spend:
  assumes "resolve_block_transactions data_hash parse sys store_cell check_valid block = Inr rtxs"
  shows "map rtx_transaction rtxs = b_transactions block \<and>
    distinct (concat (map spent_inputs (b_transactions block))) \<and>
    list_all2 (\<lambda>tx rtx.
        list_all2 (\<lambda>p m. overlay_cell (block_cell data_hash (output_indices block) block) store_cell p False
                        = Some (LiveCell m)) (spent_inputs tx) (resolved_inputs rtx) \<and>
        length (resolved_cell_deps rtx) \<le> 2048)
      (b_transactions block) rtxs"
proof -
  have "resolve_transactions (resolve_transaction parse sys
      (overlay_cell (block_cell data_hash (output_indices block) block) store_cell) check_valid)
      (b_transactions block) {} = Inr rtxs"
    using assms by (auto simp: resolve_block_transactions_def r_bind_Inr block_cell_provider_new_Inr)
  from resolve_transactions_sound [OF this] show ?thesis
    by (simp add: MAX_DEP_EXPANSION_LIMIT_def)
qed

theorem resolve_block_no_double_spend_witness:
  "\<exists>rtxs. resolve_block_transactions (\<lambda>d. d) (\<lambda>_. None) None ex_store (\<lambda>_. Inr ()) ex_block = Inr rtxs \<and>
     map rtx_transaction rtxs = b_transactions ex_block"
proof -
  have "\<not> isl (resolve_block_transactions (\<lambda>d. d) (\<lambda>_. None) None ex_store (\<lambda>_. Inr ()) ex_block)"
    by code_simp
  then obtain rtxs where "resolve_block_transactions (\<lambda>d. d) (\<lambda>_. None) None ex_store (\<lambda>_. Inr ()) ex_block = Inr rtxs"
    by (rule not_isl_Inr)
  with resolve_block_no_double_spend [OF this] show ?thesis by blast
qed

text \<open>C3. In a block that \<open>BlockCellProvider::new\<close> accepts, a transaction's inputs and cell
  dependencies refer, inside the block, only to transactions that stand strictly before it.\<close>

theorem block_cell_provider_ordered:
  assumes "block_cell_provider_new block = Inr indices"
    and "distinct (map tx_hash (b_transactions block))"
    and "i < length (b_transactions block)" and "j < length (b_transactions block)"
    and "p \<in> set (input_pts (b_transactions block ! i)) \<union> cd_out_point ` set (cell_deps (b_transactions block ! i))"
    and "op_tx_hash p = tx_hash (b_transactions block ! j)"
  shows "j < i"
  using assms(1,3,5,6) output_indices_Some [OF assms(2,4)]
  unfolding block_cell_provider_new_Inr set_map by (metis Un_commute)

theorem block_cell_provider_ordered_witness:
  "op_tx_hash (input_pts (b_transactions ex_block ! 2) ! 0) = tx_hash (b_transactions ex_block ! 1) \<and> (1 :: nat) < 2"
proof -
  have "\<not> isl (block_cell_provider_new ex_block)" by code_simp
  then obtain indices where i: "block_cell_provider_new ex_block = Inr indices" by (rule not_isl_Inr)
  have eq: "op_tx_hash (input_pts (b_transactions ex_block ! 2) ! 0) = tx_hash (b_transactions ex_block ! 1)"
    by (simp add: ex_block_def ex_tx_def ex_spend_def input_pts_def)
  have "distinct (map tx_hash (b_transactions ex_block))" "2 < length (b_transactions ex_block)"
    "1 < length (b_transactions ex_block)"
    "input_pts (b_transactions ex_block ! 2) ! 0 \<in> set (input_pts (b_transactions ex_block ! 2)) \<union>
       cd_out_point ` set (cell_deps (b_transactions ex_block ! 2))"
    by (simp_all add: ex_block_def ex_tx_def input_pts_def)
  from block_cell_provider_ordered [OF i this eq] eq show ?thesis by blast
qed

text \<open>C4. Resolving the inputs of a transaction succeeds exactly when they are pairwise distinct,
  none of them was spent before, and the provider has a live cell for each.\<close>

theorem resolve_inputs_iff:
  "(\<exists>r. resolve_inputs seen cell ps {} Map.empty = Inr r) \<longleftrightarrow>
     distinct ps \<and> set ps \<inter> seen = {} \<and> (\<forall>p\<in>set ps. \<exists>m. cell p False = Some (LiveCell m))"
proof
  assume "\<exists>r. resolve_inputs seen cell ps {} Map.empty = Inr r"
  then obtain ms current cache where "resolve_inputs seen cell ps {} Map.empty = Inr (ms, current, cache)"
    by auto
  from resolve_inputs_sound [OF this]
  show "distinct ps \<and> set ps \<inter> seen = {} \<and> (\<forall>p\<in>set ps. \<exists>m. cell p False = Some (LiveCell m))"
    by (force simp: list_all2_conv_all_nth in_set_conv_nth)
qed (rule resolve_inputs_complete; simp)

theorem resolve_inputs_iff_witness:
  "\<exists>r. resolve_inputs {} ex_store [\<lparr>op_tx_hash = [9], op_index = 0\<rparr>] {} Map.empty = Inr r"
proof -
  have "\<exists>m. ex_store \<lparr>op_tx_hash = [9], op_index = 0\<rparr> False = Some (LiveCell m)"
    by (simp add: ex_store_def transactions_cell_def transactions_provider_new_def ex_tx_def
        output_with_data_def get_nth_def)
  then show ?thesis by (subst resolve_inputs_iff) simp
qed

text \<open>C2. For a provider and a checker over the same store, and the pool's transactions laid over
  both, \<open>ResolvedTransaction::check\<close> accepts every transaction that was resolved, with the same
  set of spent inputs afterwards, whether the system cell cache set up from the genesis block is present or not.\<close>

theorem check_accepts_resolved:
  assumes "cell_source store_cell store_live"
    and "resolve_transaction parse sys
           (overlay_cell (transactions_cell data_hash (transactions_provider_new txs)) store_cell)
           check_valid tx seen = Inr (rtx, seen')"
    and "sys = None \<or> sys = setup_system_cell_cache parse genesis store_cell"
  shows "rtx_check sys (overlay_is_live (transactions_checker_is_live (transactions_checker_new txs)) store_live)
           check_valid rtx seen = Inr seen'"
proof -
  have "cell_source (overlay_cell (transactions_cell data_hash (transactions_provider_new txs)) store_cell)
      (overlay_is_live (transactions_checker_is_live (transactions_checker_new txs)) store_live)"
    by (rule overlay_source [OF txs_source.cell_source_axioms assms(1)])
  then show ?thesis
    using assms(2)
  proof (rule cell_source.check_resolved)
    fix f assume "sys = Some f"
    then have "setup_system_cell_cache parse genesis store_cell = Some f" using assms(3) by auto
    then show "sys_wf f" by (rule setup_system_cell_cache_wf) (rule cell_source.live_point [OF assms(1)])
  qed
qed

theorem check_accepts_resolved_witness:
  "\<exists>rtx. rtx_check None
     (overlay_is_live (transactions_checker_is_live (transactions_checker_new [ex_tx [2] [ex_spend [9]]])) ex_store_live)
     (\<lambda>_. Inr ()) rtx {} = Inr {\<lparr>op_tx_hash = [2], op_index = 0\<rparr>} \<and> rtx_transaction rtx = ex_tx [3] [ex_spend [2]]"
proof -
  let ?r = "resolve_transaction (\<lambda>_. None) None
     (overlay_cell (transactions_cell (\<lambda>d. d) (transactions_provider_new [ex_tx [2] [ex_spend [9]]])) ex_store)
     (\<lambda>_. Inr ()) (ex_tx [3] [ex_spend [2]]) {}"
  have "\<not> isl ?r" by code_simp
  then obtain rtx seen' where r: "?r = Inr (rtx, seen')" by (rule not_isl_Inr) force
  have "seen' = {\<lparr>op_tx_hash = [2], op_index = 0\<rparr>}" "rtx_transaction rtx = ex_tx [3] [ex_spend [2]]"
    using resolve_transaction_sound(1,4) [OF r]
    by (simp_all add: spent_inputs_def ex_tx_def ex_spend_def tx_is_cellbase_def input_pts_def
        out_point_is_null_def byte32_is_zero_def)
  moreover have "cell_source ex_store ex_store_live"
    unfolding ex_store_def ex_store_live_def by (rule txs_source.cell_source_axioms)
  ultimately show ?thesis
    using check_accepts_resolved [OF _ r, of ex_store_live] by auto
qed

end
