(* ===== verification/Consensus_Params.thy ===== *)
theory Consensus_Params
  imports Cell_Resolve
begin

text \<open>
  The consensus parameters the components read (\<open>spec/src/consensus.rs\<close>), the proposal window,
  and the hard-fork switch of \<open>util/types/src/core/hardfork/ckb2021.rs\<close> that transaction
  verification asks for.
\<close>

datatype ProposalWindow = ProposalWindow (closest: u64) (farthest: u64)

record CKB2021 =
  rfc_0028 :: u64
  rfc_0029 :: u64
  rfc_0030 :: u64
  rfc_0031 :: u64
  rfc_0032 :: u64
  rfc_0036 :: u64
  rfc_0038 :: u64

record Consensus =
  c_tx_version :: u32
  c_max_block_bytes :: u64
  c_max_block_proposals_limit :: u64
  c_max_uncles_num :: nat
  c_max_block_cycles :: u64
  c_cellbase_maturity :: EpochNumberWithFraction
  c_median_time_block_count :: nat
  c_tx_proposal_window :: ProposalWindow
  c_dao_type_hash :: byte32
  c_secondary_epoch_reward :: capacity
  c_initial_primary_epoch_reward :: capacity
  c_satoshi_pubkey_hash :: "u8 list"
  c_satoshi_cell_occupied_ratio :: Ratio
  c_starting_block_limiting_dao_withdrawing_lock :: u64
  c_genesis_epoch_ext :: EpochExt
  c_genesis_block :: BlockView
  c_proposer_reward_ratio :: Ratio
  c_ckb2021 :: CKB2021
  c_permanent_difficulty_in_dummy :: bool
  c_orphan_rate_target :: RationalU256
  c_epoch_duration_target :: u64
  c_primary_epoch_reward_halving_interval :: u64
  c_pow_is_dummy :: bool

text \<open>\<open>self.1 - self.0 + 1\<close>, with the panics of the checked operators.\<close>

definition window_length :: "ProposalWindow \<Rightarrow> u64 option" where
  "window_length w =
     Option.bind (checked_sub (farthest w) (closest w)) (\<lambda>d. checked_add d 1)"

definition is_block_ts_as_relative_since_start_enabled :: "CKB2021 \<Rightarrow> u64 \<Rightarrow> bool" where
  "is_block_ts_as_relative_since_start_enabled self epoch_number \<longleftrightarrow> epoch_number \<ge> rfc_0028 self"

definition finalization_delay_length :: "Consensus \<Rightarrow> u64 option" where
  "finalization_delay_length self = checked_add (farthest (c_tx_proposal_window self)) 1"

text \<open>The outer option is the panic of the addition.\<close>

definition finalize_target :: "Consensus \<Rightarrow> u64 \<Rightarrow> u64 option option" where
  "finalize_target self block_number =
     (if block_number \<noteq> 0
      then map_option (\<lambda>d. Some (saturating_sub block_number d)) (finalization_delay_length self)
      else Some None)"

text \<open>\<open>spec/src/lib.rs\<close>: the reward of one block, rounded up; division by zero panics.\<close>

definition calculate_block_reward :: "capacity \<Rightarrow> u64 \<Rightarrow> capacity option" where
  "calculate_block_reward epoch_reward epoch_length =
     (if epoch_length = 0 then None
      else if as_u64 epoch_reward mod epoch_length \<noteq> 0
        then map_option shannons (checked_add (as_u64 epoch_reward div epoch_length) 1)
        else Some (shannons (as_u64 epoch_reward div epoch_length)))"

end
