(* ===== verification/Header_Provider.thy ===== *)
theory Header_Provider
  imports Consensus_Params
begin

text \<open>
  \<open>traits/src/header_provider.rs\<close>: header fields by block hash and the median of the timestamps of
  the last blocks. The store behind the trait is the argument \<open>get_header_fields\<close>; \<open>None\<close> as a result
  is the panic of \<open>expect("parent header exist")\<close> or of indexing an empty vector.
\<close>

record HeaderFields =
  hf_hash :: byte32
  hf_number :: u64
  hf_epoch :: EpochNumberWithFraction
  hf_timestamp :: u64
  hf_parent_hash :: byte32

fun past_timestamps :: "(byte32 \<Rightarrow> HeaderFields option) \<Rightarrow> nat \<Rightarrow> byte32 \<Rightarrow> u64 list option" where
  "past_timestamps get_header_fields 0 block_hash = Some []"
| "past_timestamps get_header_fields (Suc n) block_hash =
     (case get_header_fields block_hash of
       None \<Rightarrow> None
     | Some f \<Rightarrow>
         (if hf_number f = 0 then Some [hf_timestamp f]
          else map_option ((#) (hf_timestamp f)) (past_timestamps get_header_fields n (hf_parent_hash f))))"

definition block_median_time :: "(byte32 \<Rightarrow> HeaderFields option) \<Rightarrow> byte32 \<Rightarrow> nat \<Rightarrow> u64 option" where
  "block_median_time get_header_fields block_hash median_block_count =
     (case past_timestamps get_header_fields median_block_count block_hash of
       None \<Rightarrow> None
     | Some timestamps \<Rightarrow> get_nth (sort timestamps) (length timestamps div 2))"

section \<open>Lemmas\<close>

text \<open>The timestamps collected are those of the blocks on the path of parent hashes.\<close>

fun ancestors :: "(byte32 \<Rightarrow> HeaderFields option) \<Rightarrow> nat \<Rightarrow> byte32 \<Rightarrow> HeaderFields list" where
  "ancestors g 0 h = []"
| "ancestors g (Suc n) h =
     (case g h of
       None \<Rightarrow> []
     | Some f \<Rightarrow> f # (if hf_number f = 0 then [] else ancestors g n (hf_parent_hash f)))"

lemma past_timestamps_ancestors:
  "past_timestamps g n h = Some ts \<Longrightarrow> ts = map hf_timestamp (ancestors g n h)"
  by (induction n arbitrary: h ts) (auto split: option.splits if_splits)

text \<open>The middle element of a sorted list: at most half the elements are below it, fewer than half above.\<close>

lemma sorted_middle:
  assumes "sorted xs" "k < length xs"
  shows "length (filter (\<lambda>x. x < xs ! k) xs) \<le> k" "length (filter (\<lambda>x. xs ! k < x) xs) < length xs - k"
proof -
  have below: "i < k" if "i < length xs" "xs ! i < xs ! k" for i
    using sorted_nth_mono [OF assms(1), of k i] that by (cases "k \<le> i") auto
  have above: "k < i" if "i < length xs" "xs ! k < xs ! i" for i
    using sorted_nth_mono [OF assms(1), of i k] that assms(2) by (cases "i \<le> k") auto
  have "{i. i < length xs \<and> xs ! i < xs ! k} \<subseteq> {..<k}"
    using below by auto
  then show "length (filter (\<lambda>x. x < xs ! k) xs) \<le> k"
    unfolding length_filter_conv_card by (metis card_lessThan card_mono finite_lessThan)
  have "{i. i < length xs \<and> xs ! k < xs ! i} \<subseteq> {Suc k..<length xs}"
    using above by (auto simp: Suc_le_eq)
  then have "length (filter (\<lambda>x. xs ! k < x) xs) \<le> length xs - Suc k"
    unfolding length_filter_conv_card by (metis card_atLeastLessThan card_mono finite_atLeastLessThan)
  then show "length (filter (\<lambda>x. xs ! k < x) xs) < length xs - k" using assms(2) by simp
qed

lemma length_filter_sort: "length (filter P (sort xs)) = length (filter P xs)"
  by (simp add: filter_sort)

lemma block_median_time_Some:
  assumes "block_median_time g h n = Some t"
  shows "t \<in> hf_timestamp ` set (ancestors g n h)"
    and "2 * length (filter (\<lambda>f. hf_timestamp f < t) (ancestors g n h)) \<le> length (ancestors g n h)"
    and "2 * length (filter (\<lambda>f. t < hf_timestamp f) (ancestors g n h)) \<le> length (ancestors g n h)"
proof -
  obtain ts where ts: "past_timestamps g n h = Some ts" and t: "length ts div 2 < length ts" "sort ts ! (length ts div 2) = t"
    using assms by (auto simp: block_median_time_def get_nth_Some split: option.splits)
  note a = past_timestamps_ancestors [OF ts]
  have "t \<in> set (sort ts)" using t nth_mem [of "length ts div 2" "sort ts"] by simp
  then show "t \<in> hf_timestamp ` set (ancestors g n h)" by (simp add: a)
  have f: "length (filter P ts) = length (filter (\<lambda>f. P (hf_timestamp f)) (ancestors g n h))" for P
    by (simp add: a filter_map comp_def)
  show "2 * length (filter (\<lambda>f. hf_timestamp f < t) (ancestors g n h)) \<le> length (ancestors g n h)"
    using sorted_middle(1) [of "sort ts" "length ts div 2"] t f [of "\<lambda>x. x < t"] a by (simp add: length_filter_sort)
  show "2 * length (filter (\<lambda>f. t < hf_timestamp f) (ancestors g n h)) \<le> length (ancestors g n h)"
    using sorted_middle(2) [of "sort ts" "length ts div 2"] t f [of "\<lambda>x. t < x"] a by (simp add: length_filter_sort)
qed

end
