(* ===== verification/Dao.thy ===== *)
theory Dao
  imports Consensus_Params
begin

text \<open>
  The DAO field and its calculator: \<open>util/dao/utils/src/lib.rs\<close> and \<open>util/dao/src/lib.rs\<close>.
  The data loader is given by its functions: \<open>get_header\<close> (\<open>HeaderProvider\<close>), \<open>load_cell_data\<close>
  (\<open>CellDataProvider\<close>) and \<open>get_epoch_ext\<close> (\<open>EpochProvider\<close>). The little-endian codec of the
  \<open>byteorder\<close> crate is the argument \<open>bo\<close>, with its round trip as the hypothesis
  \<open>byteorder_ok\<close>; the molecule decoder of \<open>WitnessArgs\<close> is the argument \<open>witness_args\<close>.

  The lemmas show that packing and extracting the field are inverse, what a withdrawal pays (never
  less than the deposited cell held when the accumulated rate has not fallen), that the fee of a
  transaction is what its inputs can withdraw less its outputs, and how the four components of the
  field evolve from block to block: the issuance of a block is accounted for exactly.
\<close>

record byteorder =
  bo_read_u64 :: "u8 list \<Rightarrow> u64"
  bo_write_u64 :: "u64 \<Rightarrow> u8 list"

definition byteorder_ok :: "byteorder \<Rightarrow> bool" where
  "byteorder_ok bo \<longleftrightarrow>
     (\<forall>w. length (bo_write_u64 bo w) = 8 \<and> bo_read_u64 bo (bo_write_u64 bo w) = w) \<and>
     (\<forall>bs. length bs = 8 \<longrightarrow> bo_write_u64 bo (bo_read_u64 bo bs) = bs)"

datatype DaoError = DaoInvalidHeader | DaoInvalidOutPoint | DaoInvalidDaoFormat | DaoOverflow | DaoZeroC
  | DaoPanic \<comment> \<open>a division by zero or an arithmetic overflow\<close>

record WitnessArgs =
  wa_lock :: "u8 list option"
  wa_input_type :: "u8 list option"
  wa_output_type :: "u8 list option"

text \<open>\<open>impl From<CapacityError> for DaoError\<close>.\<close>

definition dao_err :: "capacity_error + 'a \<Rightarrow> DaoError + 'a" where
  "dao_err r = (case r of Inl Overflow \<Rightarrow> Inl DaoOverflow | Inr a \<Rightarrow> Inr a)"

section \<open>The DAO field\<close>

definition DEFAULT_GENESIS_ACCUMULATE_RATE :: u64 where
  "DEFAULT_GENESIS_ACCUMULATE_RATE = 10000000000000000"

definition extract_dao_data :: "byteorder \<Rightarrow> byte32 \<Rightarrow> u64 \<times> capacity \<times> capacity \<times> capacity" where
  "extract_dao_data bo data =
     (let c = shannons (bo_read_u64 bo (take 8 data));
          ar = bo_read_u64 bo (take 8 (drop 8 data));
          s = shannons (bo_read_u64 bo (take 8 (drop 16 data)));
          u = shannons (bo_read_u64 bo (take 8 (drop 24 data)))
      in (ar, c, s, u))"

definition pack_dao_data :: "byteorder \<Rightarrow> u64 \<Rightarrow> capacity \<Rightarrow> capacity \<Rightarrow> capacity \<Rightarrow> byte32" where
  "pack_dao_data bo ar c s u =
     bo_write_u64 bo (as_u64 c) @ bo_write_u64 bo ar @ bo_write_u64 bo (as_u64 s) @ bo_write_u64 bo (as_u64 u)"

definition genesis_dead_cells :: "TransactionView list \<Rightarrow> OutPoint set" where
  "genesis_dead_cells txs = set (concat (map input_pts txs))"

definition live_outputs :: "OutPoint set \<Rightarrow> TransactionView \<Rightarrow> 'a list \<Rightarrow> 'a list" where
  "live_outputs dead tx xs =
     map snd (filter (\<lambda>(index, _). \<lparr>op_tx_hash = tx_hash tx, op_index = word_of_nat index\<rparr> \<notin> dead) (enumerate 0 xs))"

definition statistics_outputs ::
    "OutPoint set \<Rightarrow> u8 list \<Rightarrow> Ratio \<Rightarrow> nat \<Rightarrow> TransactionView \<Rightarrow> DaoError + (capacity \<times> capacity)" where
  "statistics_outputs dead satoshi_pubkey_hash satoshi_cell_occupied_ratio tx_index tx =
     r_bind (dao_err (try_fold (\<lambda>capacity out. safe_add capacity (shannons (co_capacity out)))
               cap_zero (live_outputs dead tx (outputs tx)))) (\<lambda>c.
     r_bind (dao_err (try_fold (\<lambda>capacity (out, data).
                 r_bind
                   (if tx_index = 0 \<and> args (co_lock out) = satoshi_pubkey_hash
                    then safe_mul_ratio (shannons (co_capacity out)) satoshi_cell_occupied_ratio
                    else r_bind (cap_bytes (word_of_nat (length data))) (occupied_capacity out))
                   (safe_add capacity))
               cap_zero (live_outputs dead tx (outputs_with_data tx)))) (\<lambda>u.
     Inr (c, u)))"

definition genesis_dao_data_with_satoshi_gift ::
    "byteorder \<Rightarrow> TransactionView list \<Rightarrow> u8 list \<Rightarrow> Ratio \<Rightarrow> capacity \<Rightarrow> capacity \<Rightarrow> DaoError + byte32" where
  "genesis_dao_data_with_satoshi_gift bo txs satoshi_pubkey_hash satoshi_cell_occupied_ratio
     initial_primary_issuance initial_secondary_issuance =
     r_bind (dao_err (safe_add initial_primary_issuance initial_secondary_issuance)) (\<lambda>initial_issuance.
     r_bind
       (try_fold (\<lambda>(c, u) (tx_index, tx).
            r_bind (statistics_outputs (genesis_dead_cells txs) satoshi_pubkey_hash
                      satoshi_cell_occupied_ratio tx_index tx) (\<lambda>(tx_c, tx_u).
            r_bind (dao_err (safe_add c tx_c)) (\<lambda>c'.
            r_bind (dao_err (safe_add u tx_u)) (\<lambda>u'. Inr (c', u')))))
          (initial_issuance, cap_zero) (enumerate 0 txs)) (\<lambda>(c, u).
     if c = cap_zero then Inl DaoZeroC
     else Inr (pack_dao_data bo DEFAULT_GENESIS_ACCUMULATE_RATE c initial_secondary_issuance u)))"

section \<open>Withdrawals and fees\<close>

text \<open>\<open>u128::from(a) * u128::from(b) / u128::from(d)\<close> converted back to \<open>u64\<close>.\<close>

definition mul_div_u64 :: "u64 \<Rightarrow> u64 \<Rightarrow> u64 \<Rightarrow> DaoError + u64" where
  "mul_div_u64 a b d =
     (if d = 0 then Inl DaoPanic
      else (let q = (ucast a :: u128) * ucast b div ucast d
            in if q > ucast (- 1 :: u64) then Inl DaoOverflow else Inr (ucast q)))"

definition is_dao_type_script :: "byte32 \<Rightarrow> Script \<Rightarrow> bool" where
  "is_dao_type_script dao_type_hash s \<longleftrightarrow>
     hash_type s = script_hash_type_value TypeHash \<and> code_hash s = dao_type_hash"

definition cell_uses_dao_type_script :: "CellOutput \<Rightarrow> byte32 \<Rightarrow> bool" where
  "cell_uses_dao_type_script out dao_type_hash =
     (case co_type out of None \<Rightarrow> False | Some t \<Rightarrow> is_dao_type_script dao_type_hash t)"

definition calculate_maximum_withdraw ::
    "byteorder \<Rightarrow> (byte32 \<Rightarrow> HeaderView option) \<Rightarrow> CellOutput \<Rightarrow> capacity \<Rightarrow> byte32 \<Rightarrow> byte32
     \<Rightarrow> DaoError + capacity" where
  "calculate_maximum_withdraw bo get_header out output_data_capacity deposit_header_hash withdrawing_header_hash =
     r_bind (ok_or DaoInvalidHeader (get_header deposit_header_hash)) (\<lambda>deposit_header.
     r_bind (ok_or DaoInvalidHeader (get_header withdrawing_header_hash)) (\<lambda>withdrawing_header.
     if h_number deposit_header \<ge> h_number withdrawing_header then Inl DaoInvalidOutPoint
     else
       (let deposit_ar = fst (extract_dao_data bo (h_dao deposit_header));
            withdrawing_ar = fst (extract_dao_data bo (h_dao withdrawing_header))
        in r_bind (dao_err (occupied_capacity out output_data_capacity)) (\<lambda>occupied.
           r_bind (dao_err (safe_sub (shannons (co_capacity out)) occupied)) (\<lambda>counted.
           r_bind (mul_div_u64 (as_u64 counted) withdrawing_ar deposit_ar) (\<lambda>withdraw_counted.
           dao_err (safe_add (shannons withdraw_counted) occupied)))))))"

definition deposited_block_number :: "byteorder \<Rightarrow> (CellMeta \<Rightarrow> u8 list option) \<Rightarrow> CellMeta \<Rightarrow> u64" where
  "deposited_block_number bo load_cell_data m =
     (case load_cell_data m of
       Some data \<Rightarrow> if length data = 8 then bo_read_u64 bo data else 0
     | None \<Rightarrow> 0)"

text \<open>The closure that finds the deposit header's hash through the witness of the same input.\<close>

definition deposit_header_hash ::
    "byteorder \<Rightarrow> (u8 list \<Rightarrow> WitnessArgs option) \<Rightarrow> TransactionView \<Rightarrow> nat \<Rightarrow> DaoError + byte32" where
  "deposit_header_hash bo witness_args tx i =
     r_bind (ok_or DaoInvalidOutPoint (get_nth (witnesses tx) i)) (\<lambda>witness_data.
     r_bind (ok_or DaoInvalidDaoFormat (witness_args witness_data)) (\<lambda>witness.
     r_bind (case wa_input_type witness of
               None \<Rightarrow> Inl DaoInvalidDaoFormat
             | Some data \<Rightarrow> if length data \<noteq> 8 then Inl DaoInvalidDaoFormat else Inr (bo_read_u64 bo data))
       (\<lambda>header_dep_index.
     ok_or DaoInvalidOutPoint (get_nth (header_deps tx) (unat header_dep_index)))))"

definition input_withdraw ::
    "byteorder \<Rightarrow> (u8 list \<Rightarrow> WitnessArgs option) \<Rightarrow> byte32 \<Rightarrow> (byte32 \<Rightarrow> HeaderView option)
     \<Rightarrow> (CellMeta \<Rightarrow> u8 list option) \<Rightarrow> ResolvedTransaction \<Rightarrow> nat \<Rightarrow> CellMeta \<Rightarrow> DaoError + capacity" where
  "input_withdraw bo witness_args dao_type_hash get_header load_cell_data rtx i m =
     (let out = cell_output m; tx = rtx_transaction rtx
      in if cell_uses_dao_type_script out dao_type_hash \<and> deposited_block_number bo load_cell_data m > 0
         then
           r_bind (ok_or DaoInvalidOutPoint
             (case transaction_info m of
               None \<Rightarrow> None
             | Some info \<Rightarrow> if ti_block_hash info \<in> set (header_deps tx) then Some (ti_block_hash info) else None))
             (\<lambda>withdrawing_header_hash.
           r_bind (deposit_header_hash bo witness_args tx i) (\<lambda>deposit_hash.
           r_bind (ok_or DaoInvalidHeader (get_header deposit_hash)) (\<lambda>deposit_header.
           if h_number deposit_header \<noteq> deposited_block_number bo load_cell_data m then Inl DaoInvalidOutPoint
           else
             r_bind (dao_err (cap_bytes (data_bytes m))) (\<lambda>data_capacity.
             calculate_maximum_withdraw bo get_header out data_capacity deposit_hash withdrawing_header_hash))))
         else Inr (shannons (co_capacity out)))"

definition transaction_maximum_withdraw ::
    "byteorder \<Rightarrow> (u8 list \<Rightarrow> WitnessArgs option) \<Rightarrow> byte32 \<Rightarrow> (byte32 \<Rightarrow> HeaderView option)
     \<Rightarrow> (CellMeta \<Rightarrow> u8 list option) \<Rightarrow> ResolvedTransaction \<Rightarrow> DaoError + capacity" where
  "transaction_maximum_withdraw bo witness_args dao_type_hash get_header load_cell_data rtx =
     try_fold (\<lambda>capacities (i, m).
         r_bind (input_withdraw bo witness_args dao_type_hash get_header load_cell_data rtx i m)
           (\<lambda>c. dao_err (safe_add c capacities)))
       cap_zero (enumerate 0 (resolved_inputs rtx))"

definition transaction_fee ::
    "byteorder \<Rightarrow> (u8 list \<Rightarrow> WitnessArgs option) \<Rightarrow> byte32 \<Rightarrow> (byte32 \<Rightarrow> HeaderView option)
     \<Rightarrow> (CellMeta \<Rightarrow> u8 list option) \<Rightarrow> ResolvedTransaction \<Rightarrow> DaoError + capacity" where
  "transaction_fee bo witness_args dao_type_hash get_header load_cell_data rtx =
     r_bind (transaction_maximum_withdraw bo witness_args dao_type_hash get_header load_cell_data rtx)
       (\<lambda>maximum_withdraw.
     dao_err (r_bind (tx_outputs_capacity (rtx_transaction rtx)) (\<lambda>y. safe_sub maximum_withdraw y)))"

section \<open>Rewards and the next field\<close>

definition primary_block_reward :: "(HeaderView \<Rightarrow> EpochExt option) \<Rightarrow> HeaderView \<Rightarrow> DaoError + capacity" where
  "primary_block_reward get_epoch_ext target =
     r_bind (ok_or DaoInvalidHeader (get_epoch_ext target)) (\<lambda>target_epoch.
     dao_err (block_reward target_epoch (h_number target)))"

definition secondary_block_reward ::
    "byteorder \<Rightarrow> Consensus \<Rightarrow> (byte32 \<Rightarrow> HeaderView option) \<Rightarrow> (HeaderView \<Rightarrow> EpochExt option)
     \<Rightarrow> HeaderView \<Rightarrow> DaoError + capacity" where
  "secondary_block_reward bo consensus get_header get_epoch_ext target =
     (if h_number target = 0 then Inr cap_zero
      else
        r_bind (ok_or DaoInvalidHeader (get_header (h_parent_hash target))) (\<lambda>target_parent.
        r_bind (ok_or DaoInvalidHeader (get_epoch_ext target)) (\<lambda>target_epoch.
        r_bind (dao_err (secondary_block_issuance target_epoch (h_number target)
                  (c_secondary_epoch_reward consensus))) (\<lambda>target_g2.
        (case extract_dao_data bo (h_dao target_parent) of (_, target_parent_c, _, target_parent_u) \<Rightarrow>
           r_map shannons (mul_div_u64 (as_u64 target_g2) (as_u64 target_parent_u) (as_u64 target_parent_c)))))))"

definition modified_occupied_capacity :: "CellMeta \<Rightarrow> Consensus \<Rightarrow> capacity_error + capacity" where
  "modified_occupied_capacity m consensus =
     (if (case transaction_info m of
            Some tx_info \<Rightarrow> info_is_genesis tx_info \<and> info_is_cellbase tx_info \<and>
              args (co_lock (cell_output m)) = c_satoshi_pubkey_hash consensus
          | None \<Rightarrow> False)
      then safe_mul_ratio (shannons (co_capacity (cell_output m))) (c_satoshi_cell_occupied_ratio consensus)
      else meta_occupied_capacity m)"

definition input_occupied_capacities :: "Consensus \<Rightarrow> ResolvedTransaction \<Rightarrow> capacity_error + capacity" where
  "input_occupied_capacities consensus rtx =
     try_fold (\<lambda>capacities m. r_bind (modified_occupied_capacity m consensus) (safe_add capacities))
       cap_zero (resolved_inputs rtx)"

definition tx_added_occupied :: "TransactionView \<Rightarrow> capacity_error + capacity" where
  "tx_added_occupied tx =
     try_fold (\<lambda>tx_capacities (out, data).
         r_bind (r_bind (cap_bytes (word_of_nat (length data))) (occupied_capacity out)) (safe_add tx_capacities))
       cap_zero (outputs_with_data tx)"

definition added_occupied_capacities :: "ResolvedTransaction list \<Rightarrow> capacity_error + capacity" where
  "added_occupied_capacities rtxs =
     try_fold (\<lambda>capacities rtx. r_bind (tx_added_occupied (rtx_transaction rtx)) (safe_add capacities)) cap_zero rtxs"

definition withdrawed_interests ::
    "byteorder \<Rightarrow> (u8 list \<Rightarrow> WitnessArgs option) \<Rightarrow> byte32 \<Rightarrow> (byte32 \<Rightarrow> HeaderView option)
     \<Rightarrow> (CellMeta \<Rightarrow> u8 list option) \<Rightarrow> ResolvedTransaction list \<Rightarrow> DaoError + capacity" where
  "withdrawed_interests bo witness_args dao_type_hash get_header load_cell_data rtxs =
     r_bind (try_fold (\<lambda>capacities rtx.
               r_bind (transaction_maximum_withdraw bo witness_args dao_type_hash get_header load_cell_data rtx)
                 (\<lambda>c. dao_err (safe_add capacities c))) cap_zero rtxs) (\<lambda>maximum_withdraws.
     r_bind (dao_err (try_fold (\<lambda>capacities rtx.
               r_bind (inputs_capacity rtx) (safe_add capacities)) cap_zero rtxs)) (\<lambda>input_capacities.
     dao_err (safe_sub maximum_withdraws input_capacities)))"

definition dao_field_with_current_epoch ::
    "byteorder \<Rightarrow> (u8 list \<Rightarrow> WitnessArgs option) \<Rightarrow> Consensus \<Rightarrow> (byte32 \<Rightarrow> HeaderView option)
     \<Rightarrow> (CellMeta \<Rightarrow> u8 list option) \<Rightarrow> ResolvedTransaction list \<Rightarrow> HeaderView \<Rightarrow> EpochExt \<Rightarrow> DaoError + byte32" where
  "dao_field_with_current_epoch bo witness_args consensus get_header load_cell_data rtxs parent current_block_epoch =
     r_bind (dao_err (try_fold (\<lambda>capacities rtx. r_bind (input_occupied_capacities consensus rtx) (safe_add capacities))
               cap_zero rtxs)) (\<lambda>freed.
     r_bind (dao_err (added_occupied_capacities rtxs)) (\<lambda>added.
     r_bind (withdrawed_interests bo witness_args (c_dao_type_hash consensus) get_header load_cell_data rtxs) (\<lambda>interests.
     (case extract_dao_data bo (h_dao parent) of (parent_ar, parent_c, parent_s, parent_u) \<Rightarrow>
     r_bind (ok_or DaoPanic (checked_add (h_number parent) 1)) (\<lambda>current_block_number.
     r_bind (dao_err (secondary_block_issuance current_block_epoch current_block_number
               (c_secondary_epoch_reward consensus))) (\<lambda>current_g2.
     r_bind (dao_err (r_bind (block_reward current_block_epoch current_block_number)
               (\<lambda>c. safe_add c current_g2))) (\<lambda>current_g.
     r_bind (r_map shannons (mul_div_u64 (as_u64 current_g2) (as_u64 parent_u) (as_u64 parent_c))) (\<lambda>miner_issuance.
     r_bind (dao_err (safe_sub current_g2 miner_issuance)) (\<lambda>nervosdao_issuance.
     r_bind (dao_err (safe_add parent_c current_g)) (\<lambda>current_c.
     r_bind (dao_err (r_bind (safe_add parent_u added) (\<lambda>u. safe_sub u freed))) (\<lambda>current_u.
     r_bind (dao_err (r_bind (safe_add parent_s nervosdao_issuance) (\<lambda>s. safe_sub s interests))) (\<lambda>current_s.
     r_bind (mul_div_u64 parent_ar (as_u64 current_g2) (as_u64 parent_c)) (\<lambda>ar_increase.
     r_bind (ok_or DaoOverflow (checked_add parent_ar ar_increase)) (\<lambda>current_ar.
     Inr (pack_dao_data bo current_ar current_c current_s current_u)))))))))))))))"

section \<open>Lemmas\<close>

lemma dao_err_Inr [simp, result_simps]: "dao_err r = Inr a \<longleftrightarrow> r = Inr a"
  by (auto simp: dao_err_def split: sum.splits capacity_error.splits)

lemma dao_err_of_Inr [simp]: "dao_err (Inr a) = Inr a"
  by simp

lemma dao_err_Inl [result_simps]: "dao_err r = Inl e \<longleftrightarrow> (\<exists>e'. r = Inl e') \<and> e = DaoOverflow"
  by (auto simp: dao_err_def split: sum.splits capacity_error.splits)

text \<open>The 128-bit intermediate never overflows, so the quotient is exact; what can fail is its size.\<close>

lemma mul_div_u64_Inr:
  "mul_div_u64 a b d = Inr r \<longleftrightarrow> d \<noteq> 0 \<and> unat r = unat a * unat b div unat d"
proof -
  let ?q = "(ucast a :: u128) * ucast b div ucast d"
  have q: "unat ?q = unat a * unat b div unat d"
    by (simp add: unat_div_distrib unat_u128_mul)
  have bound: "\<not> ?q > ucast (- 1 :: u64) \<longleftrightarrow> unat a * unat b div unat d < 2 ^ 64"
    by (simp only: word_less_nat_alt q unat_ucast_u128 unat_max_word) auto
  have narrow: "unat (ucast ?q :: u64) = unat a * unat b div unat d" if "unat a * unat b div unat d < 2 ^ 64"
    using that q by (simp add: unsigned_ucast_eq take_bit_nat_eq_self)
  show ?thesis
    using bound narrow unat_lt2p [of r] by (auto simp: mul_div_u64_def Let_def word_unat_eq_iff not_less)
qed

lemma byteorder_okD:
  assumes "byteorder_ok bo"
  shows "length (bo_write_u64 bo w) = 8" "bo_read_u64 bo (bo_write_u64 bo w) = w"
  using assms by (simp_all add: byteorder_ok_def)

lemma extract_pack:
  assumes "byteorder_ok bo"
  shows "extract_dao_data bo (pack_dao_data bo ar c s u) = (ar, c, s, u)"
  by (simp add: extract_dao_data_def pack_dao_data_def byteorder_okD [OF assms] shannons_def)

lemma pack_extract:
  assumes "byteorder_ok bo" "length d = 32"
  shows "(case extract_dao_data bo d of (ar, c, s, u) \<Rightarrow> pack_dao_data bo ar c s u) = d"
proof -
  have w: "length bs = 8 \<Longrightarrow> bo_write_u64 bo (bo_read_u64 bo bs) = bs" for bs
    using assms(1) by (simp add: byteorder_ok_def)
  have "d = take 8 d @ take 8 (drop 8 d) @ take 8 (drop 16 d) @ take 8 (drop 24 d)"
    using assms(2) append_take_drop_id [of 8 d] append_take_drop_id [of 8 "drop 8 d"]
      append_take_drop_id [of 8 "drop 16 d"] by simp
  moreover have "bo_write_u64 bo (bo_read_u64 bo (take 8 d)) = take 8 d"
    "bo_write_u64 bo (bo_read_u64 bo (take 8 (drop 8 d))) = take 8 (drop 8 d)"
    "bo_write_u64 bo (bo_read_u64 bo (take 8 (drop 16 d))) = take 8 (drop 16 d)"
    "bo_write_u64 bo (bo_read_u64 bo (take 8 (drop 24 d))) = take 8 (drop 24 d)"
    using assms(2) by (simp_all add: w)
  ultimately show ?thesis
    by (simp add: extract_dao_data_def pack_dao_data_def Let_def)
qed

text \<open>What a withdrawal pays: the occupied part back as it is, the rest scaled by the accumulated rates.\<close>

lemma calculate_maximum_withdraw_Inr:
  assumes "calculate_maximum_withdraw bo get_header out d dh wh = Inr w"
  shows "\<exists>deposit withdrawing occupied. get_header dh = Some deposit \<and> get_header wh = Some withdrawing \<and>
    h_number deposit < h_number withdrawing \<and> occupied_capacity out d = Inr occupied \<and>
    cap_nat occupied \<le> unat (co_capacity out) \<and>
    fst (extract_dao_data bo (h_dao deposit)) \<noteq> 0 \<and>
    cap_nat w = cap_nat occupied + (unat (co_capacity out) - cap_nat occupied) *
      unat (fst (extract_dao_data bo (h_dao withdrawing))) div unat (fst (extract_dao_data bo (h_dao deposit)))"
  using assms
  by (auto simp: calculate_maximum_withdraw_def result_simps Let_def mul_div_u64_Inr cap_simps not_le
      split: if_splits)

lemma scaled_at_least:
  assumes "(d::nat) \<noteq> 0" "d \<le> w"
  shows "x \<le> x * w div d"
proof -
  have "x * d div d \<le> x * w div d" using assms(2) by (intro div_le_mono) simp
  then show ?thesis using assms(1) by simp
qed

text \<open>The sum a loop of \<open>safe_add\<close>s over fallible amounts computes.\<close>

lemma try_fold_dao_sum:
  assumes "try_fold (\<lambda>acc x. r_bind (f x) (\<lambda>c. dao_err (safe_add c acc))) a xs = Inr t"
  shows "\<exists>cs. map f xs = map Inr cs \<and> cap_nat t = cap_nat a + sum_list (map cap_nat cs)"
  using assms
proof (induction xs arbitrary: a)
  case Nil
  then show ?case by (intro exI [of _ "[]"]) simp
next
  case (Cons x xs)
  obtain c a' where 1: "f x = Inr c" "cap_nat a' = cap_nat c + cap_nat a"
    "try_fold (\<lambda>acc x. r_bind (f x) (\<lambda>c. dao_err (safe_add c acc))) a' xs = Inr t"
    using Cons.prems by (auto simp: result_simps cap_simps)
  obtain cs where "map f xs = map Inr cs" "cap_nat t = cap_nat a' + sum_list (map cap_nat cs)"
    using Cons.IH [OF 1(3)] by blast
  then show ?case using 1 by (intro exI [of _ "c # cs"]) simp
qed

lemma transaction_maximum_withdraw_sum:
  assumes "transaction_maximum_withdraw bo wa dth get_header load rtx = Inr t"
  shows "\<exists>cs. map (\<lambda>(i, m). input_withdraw bo wa dth get_header load rtx i m) (enumerate 0 (resolved_inputs rtx)) = map Inr cs
    \<and> cap_nat t = sum_list (map cap_nat cs)"
proof -
  let ?f = "\<lambda>(i, m). input_withdraw bo wa dth get_header load rtx i m"
  have "(\<lambda>acc (i, m). r_bind (input_withdraw bo wa dth get_header load rtx i m) (\<lambda>c. dao_err (safe_add c acc))) =
      (\<lambda>acc x. r_bind (?f x) (\<lambda>c. dao_err (safe_add c acc)))"
    by (simp add: fun_eq_iff split_beta)
  then show ?thesis
    using assms try_fold_dao_sum [of ?f cap_zero "enumerate 0 (resolved_inputs rtx)" t]
    by (simp add: transaction_maximum_withdraw_def)
qed

lemma transaction_fee_Inr:
  "transaction_fee bo wa dth get_header load rtx = Inr fee \<longleftrightarrow>
     (\<exists>t outs. transaction_maximum_withdraw bo wa dth get_header load rtx = Inr t \<and>
        tx_outputs_capacity (rtx_transaction rtx) = Inr outs \<and> cap_nat t = cap_nat outs + cap_nat fee)"
  by (simp add: transaction_fee_def result_simps cap_simps)

lemma try_fold_dao_err:
  "try_fold (\<lambda>acc x. r_bind (Inr (f x)) (\<lambda>c. dao_err (safe_add c acc))) a xs = Inr t \<longleftrightarrow>
     cap_nat t = cap_nat a + sum_list (map (\<lambda>x. cap_nat (f x)) xs)"
proof (induction xs arbitrary: a)
  case (Cons x xs)
  have "(\<exists>b. cap_nat b = cap_nat (f x) + cap_nat a \<and> cap_nat t = cap_nat b + S) \<longleftrightarrow>
      cap_nat t = cap_nat a + (cap_nat (f x) + S)" for S
    using cap_nat_surj [of "cap_nat (f x) + cap_nat a" t] by auto (metis add.commute)
  then show ?case using Cons.IH by (simp add: result_simps cap_simps)
qed (auto simp: cap_nat_eq_iff)

text \<open>Inputs that are no DAO cells withdraw exactly the capacity they hold.\<close>

lemma plain_inputs_withdraw:
  assumes "\<forall>m\<in>set (resolved_inputs rtx). \<not> cell_uses_dao_type_script (cell_output m) dao_type_hash"
  shows "transaction_maximum_withdraw bo wa dao_type_hash get_header load rtx = Inr t \<longleftrightarrow>
    try_fold safe_add cap_zero (map meta_capacity (resolved_inputs rtx)) = Inr t"
proof -
  let ?xs = "enumerate 0 (resolved_inputs rtx)"
  have "input_withdraw bo wa dao_type_hash get_header load rtx i m = Inr (meta_capacity m)"
    if "(i, m) \<in> set ?xs" for i m
  proof -
    have "m \<in> set (resolved_inputs rtx)" using that by (auto simp: in_set_enumerate_eq)
    then show ?thesis using assms by (simp add: input_withdraw_def meta_capacity_def)
  qed
  then have "transaction_maximum_withdraw bo wa dao_type_hash get_header load rtx =
      try_fold (\<lambda>acc x. r_bind (Inr (meta_capacity (snd x))) (\<lambda>c. dao_err (safe_add c acc))) cap_zero ?xs"
    unfolding transaction_maximum_withdraw_def by (intro try_fold_cong) (auto simp: split_beta)
  moreover have "map (\<lambda>x. cap_nat (meta_capacity (snd x))) ?xs = map cap_nat (map meta_capacity (resolved_inputs rtx))"
    using map_map [of "cap_nat \<circ> meta_capacity" snd ?xs] by (simp add: comp_def)
  ultimately show ?thesis
    by (simp only: try_fold_dao_err try_fold_safe_add_Inr)
qed

lemma plain_fee_balances:
  assumes "\<forall>m\<in>set (resolved_inputs rtx). \<not> cell_uses_dao_type_script (cell_output m) dao_type_hash"
  shows "transaction_fee bo wa dao_type_hash get_header load rtx = Inr fee \<longleftrightarrow>
         (\<exists>i outs. inputs_capacity rtx = Inr i \<and> outputs_capacity rtx = Inr outs \<and> cap_nat i = cap_nat outs + cap_nat fee)"
proof -
  have "transaction_maximum_withdraw bo wa dao_type_hash get_header load rtx = Inr t \<longleftrightarrow> inputs_capacity rtx = Inr t" for t
    using plain_inputs_withdraw [OF assms] by (simp add: inputs_capacity_def)
  then show ?thesis by (auto simp: transaction_fee_Inr outputs_capacity_def)
qed

lemma dao_field_Inr:
  assumes "dao_field_with_current_epoch bo wa consensus get_header load rtxs parent epoch = Inr d"
    and bo: "byteorder_ok bo"
    and p: "extract_dao_data bo (h_dao parent) = (ar, c, s, u)"
    and d: "extract_dao_data bo d = (ar', c', s', u')"
  shows "\<exists>n g1 g2 added freed interests.
    unat n = unat (h_number parent) + 1 \<and> as_u64 c \<noteq> 0 \<and>
    block_reward epoch n = Inr g1 \<and>
    secondary_block_issuance epoch n (c_secondary_epoch_reward consensus) = Inr g2 \<and>
    added_occupied_capacities rtxs = Inr added \<and>
    try_fold (\<lambda>capacities rtx. r_bind (input_occupied_capacities consensus rtx) (safe_add capacities)) cap_zero rtxs
      = Inr freed \<and>
    withdrawed_interests bo wa (c_dao_type_hash consensus) get_header load rtxs = Inr interests \<and>
    cap_nat c' = cap_nat c + cap_nat g1 + cap_nat g2 \<and>
    cap_nat u' + cap_nat freed = cap_nat u + cap_nat added \<and>
    cap_nat g2 * cap_nat u div cap_nat c \<le> cap_nat g2 \<and>
    cap_nat s' + cap_nat interests = cap_nat s + (cap_nat g2 - cap_nat g2 * cap_nat u div cap_nat c) \<and>
    unat ar' = unat ar + unat ar * cap_nat g2 div cap_nat c"
proof -
  obtain n g1 g2 added freed interests g miner dao_part c1 t1 u1 t2 s1 inc ar1 where 1:
    "checked_add (h_number parent) 1 = Some n"
    "block_reward epoch n = Inr g1" "secondary_block_issuance epoch n (c_secondary_epoch_reward consensus) = Inr g2"
    "added_occupied_capacities rtxs = Inr added"
    "try_fold (\<lambda>capacities rtx. r_bind (input_occupied_capacities consensus rtx) (safe_add capacities)) cap_zero rtxs
      = Inr freed"
    "withdrawed_interests bo wa (c_dao_type_hash consensus) get_header load rtxs = Inr interests"
    and 2: "safe_add g1 g2 = Inr g" "mul_div_u64 (as_u64 g2) (as_u64 u) (as_u64 c) = Inr miner"
    "safe_sub g2 (shannons miner) = Inr dao_part" "safe_add c g = Inr c1"
    "safe_add u added = Inr t1" "safe_sub t1 freed = Inr u1"
    "safe_add s dao_part = Inr t2" "safe_sub t2 interests = Inr s1"
    "mul_div_u64 ar (as_u64 g2) (as_u64 c) = Inr inc" "checked_add ar inc = Some ar1"
    and pack: "d = pack_dao_data bo ar1 c1 s1 u1"
    using assms(1) unfolding dao_field_with_current_epoch_def p prod.case
    by (auto simp only: r_bind_Inr dao_err_Inr ok_or_Inr r_map_Inr sum.inject)
  have "unat n = unat (h_number parent) + 1" using 1(1) by (simp add: checked_add_Some)
  moreover have "as_u64 c \<noteq> 0" "unat miner = cap_nat g2 * cap_nat u div cap_nat c"
    "unat inc = unat ar * cap_nat g2 div cap_nat c"
    using 2(2,9) by (simp_all add: mul_div_u64_Inr)
  moreover have "ar' = ar1" "c' = c1" "s' = s1" "u' = u1"
    using d unfolding pack extract_pack [OF bo] by simp_all
  moreover have "cap_nat g = cap_nat g1 + cap_nat g2" "cap_nat g2 = unat miner + cap_nat dao_part"
    "cap_nat c1 = cap_nat c + cap_nat g" "cap_nat u + cap_nat added = cap_nat freed + cap_nat u1"
    "cap_nat s + cap_nat dao_part = cap_nat interests + cap_nat s1" "unat ar1 = unat ar + unat inc"
    using 2 by (simp_all add: cap_simps checked_add_Some)
  ultimately show ?thesis
    using 1 by (intro exI [of _ n] exI [of _ g1] exI [of _ g2] exI [of _ added] exI [of _ freed] exI [of _ interests]) simp
qed

section \<open>A little-endian codec\<close>

definition le_value :: "nat list \<Rightarrow> nat" where
  "le_value ds = foldr (\<lambda>b a. b + 256 * a) ds 0"

definition le_words :: byteorder where
  "le_words =
     \<lparr>bo_read_u64 = \<lambda>bs. word_of_nat (le_value (map unat bs)),
      bo_write_u64 = \<lambda>w. map (\<lambda>i. word_of_nat (unat w div 256 ^ i)) [0..<8]\<rparr>"

lemma le_value_digits: "le_value (map (\<lambda>i. x div 256 ^ i mod 256) [0..<n]) = x mod 256 ^ n"
proof (induction n arbitrary: x)
  case (Suc n)
  have "map (\<lambda>i. x div 256 ^ i mod 256) [0..<Suc n] =
      x mod 256 # map (\<lambda>i. x div 256 div 256 ^ i mod 256) [0..<n]"
    by (simp only: upt_conv_Cons map_Suc_upt [symmetric] list.map map_map comp_def power_Suc) 
      (simp add: div_mult2_eq)
  then show ?case
    using Suc [of "x div 256"] by (simp add: le_value_def mod_mult2_eq)
qed (simp add: le_value_def)

lemma le_value_nth:
  "i < length ds \<Longrightarrow> \<forall>d\<in>set ds. d < 256 \<Longrightarrow> le_value ds div 256 ^ i mod 256 = ds ! i"
proof (induction ds arbitrary: i)
  case (Cons d ds)
  show ?case
  proof (cases i)
    case 0
    then show ?thesis using Cons.prems by (simp add: le_value_def)
  next
    case (Suc j)
    have "(d + 256 * le_value ds) div 256 = le_value ds" using Cons.prems by simp
    then show ?thesis using Cons Suc by (simp add: le_value_def div_mult2_eq)
  qed
qed simp

lemma le_value_bound: "\<forall>d\<in>set ds. d < 256 \<Longrightarrow> le_value ds < 256 ^ length ds"
proof (induction ds)
  case (Cons d ds)
  then have "d < 256" "le_value ds + 1 \<le> 256 ^ length ds" by auto
  then have "d + 256 * le_value ds < 256 * (le_value ds + 1)" "256 * (le_value ds + 1) \<le> 256 * 256 ^ length ds"
    by simp_all
  then show ?case by (simp add: le_value_def)
qed (simp add: le_value_def)

lemma unat_u8_of_nat: "unat (word_of_nat n :: u8) = n mod 256"
  by (simp add: unat_of_nat)

lemma le_words_ok: "byteorder_ok le_words"
proof -
  have "bo_read_u64 le_words (bo_write_u64 le_words w) = w" for w
  proof -
    have "le_value (map (\<lambda>i. unat w div 256 ^ i mod 256) [0..<8]) = unat w"
      using unat_lt2p [of w] by (simp only: le_value_digits) simp
    then show ?thesis by (simp add: le_words_def comp_def unat_u8_of_nat del: upt_rec_numeral)
  qed
  moreover have "bo_write_u64 le_words (bo_read_u64 le_words bs) = bs" if len: "length bs = 8" for bs
  proof -
    have small: "\<forall>d\<in>set (map unat bs). d < 256" using unat_lt2p [where 'a = 8] by auto
    have "le_value (map unat bs) < 2 ^ 64" using le_value_bound [OF small] len by simp
    then have v: "unat (word_of_nat (le_value (map unat bs)) :: u64) = le_value (map unat bs)"
      by (simp add: unat_of_nat)
    have "word_of_nat (le_value (map unat bs) div 256 ^ i) = bs ! i" if "i < 8" for i
      using that len le_value_nth [of i "map unat bs", OF _ small]
      by (simp add: word_unat_eq_iff unat_u8_of_nat)
    then show ?thesis using len by (intro nth_equalityI) (simp_all add: le_words_def v del: upt_rec_numeral)
  qed
  ultimately show ?thesis by (simp add: byteorder_ok_def le_words_def del: upt_rec_numeral)
qed

section \<open>Properties\<close>

text \<open>C24. The DAO field packs and extracts its four components without loss, in both directions.\<close>

theorem dao_data_round_trip:
  assumes "byteorder_ok bo" and "length d = 32"
  shows "extract_dao_data bo (pack_dao_data bo ar c s u) = (ar, c, s, u) \<and>
         (case extract_dao_data bo d of (ar, c, s, u) \<Rightarrow> pack_dao_data bo ar c s u) = d"
  using extract_pack [OF assms(1)] pack_extract [OF assms] by blast

theorem dao_data_round_trip_witness:
  "extract_dao_data le_words (pack_dao_data le_words 1 (Capacity 2) (Capacity 3) (Capacity 4)) =
     (1, Capacity 2, Capacity 3, Capacity 4)"
  using dao_data_round_trip [OF le_words_ok, of "replicate 32 0"] by simp

text \<open>C22. A completed DAO withdrawal pays the occupied capacity back as it is and the rest scaled by
  the quotient of the accumulated rates of the two blocks; when the rate has not fallen between the
  blocks it pays at least the capacity deposited.\<close>

theorem dao_withdraw_exact:
  assumes "calculate_maximum_withdraw bo get_header out d dh wh = Inr w"
    and "get_header dh = Some deposit" and "get_header wh = Some withdrawing"
    and "extract_dao_data bo (h_dao deposit) = (ar, dc, dss, du)"
    and "extract_dao_data bo (h_dao withdrawing) = (ar', wc, wss, wu)"
    and "occupied_capacity out d = Inr occupied"
  shows "cap_nat w = cap_nat occupied + (unat (co_capacity out) - cap_nat occupied) * unat ar' div unat ar \<and>
         (ar \<le> ar' \<longrightarrow> unat (co_capacity out) \<le> cap_nat w)"
proof -
  have w: "cap_nat w = cap_nat occupied + (unat (co_capacity out) - cap_nat occupied) * unat ar' div unat ar"
    and "cap_nat occupied \<le> unat (co_capacity out)" "ar \<noteq> 0"
    using calculate_maximum_withdraw_Inr [OF assms(1)] assms(2-6) by auto
  then show ?thesis
    using scaled_at_least [of "unat ar" "unat ar'" "unat (co_capacity out) - cap_nat occupied"]
    by (auto simp: word_le_nat_alt unat_zero_iff_word)
qed

definition ex_dao_header :: "u64 \<Rightarrow> u64 \<Rightarrow> HeaderView" where
  "ex_dao_header n ar = ex_header\<lparr>h_number := n,
     h_dao := pack_dao_data le_words ar (Capacity 1000) (Capacity 0) (Capacity 500)\<rparr>"

definition ex_dao_chain :: "byte32 \<Rightarrow> HeaderView option" where
  "ex_dao_chain h = (if h = [1] then Some (ex_dao_header 1 1000) else if h = [2] then Some (ex_dao_header 2 1100) else None)"

definition ex_dao_cell :: CellOutput where
  "ex_dao_cell = \<lparr>co_capacity = 10000000000, co_lock = \<lparr>code_hash = [], hash_type = 0, args = []\<rparr>, co_type = None\<rparr>"

lemma ex_dao_header_fields:
  "extract_dao_data le_words (h_dao (ex_dao_header n ar)) = (ar, Capacity 1000, Capacity 0, Capacity 500)"
  "h_number (ex_dao_header n ar) = n"
  by (simp_all add: ex_dao_header_def extract_pack [OF le_words_ok])

lemma ex_dao_cell_occupied: "occupied_capacity ex_dao_cell cap_zero = Inr (Capacity 4100000000)"
  by (subst occupied_capacity_Inr) (simp_all add: cell_in_memory_def cell_bytes_def script_bytes_def ex_dao_cell_def)

theorem dao_withdraw_exact_witness:
  "calculate_maximum_withdraw le_words ex_dao_chain ex_dao_cell cap_zero [1] [2] = Inr (Capacity 10590000000) \<and>
   unat (co_capacity ex_dao_cell) \<le> cap_nat (Capacity 10590000000)"
proof -
  have counted: "safe_sub (shannons (co_capacity ex_dao_cell)) (Capacity 4100000000) = Inr (Capacity 5900000000)"
    by (simp add: cap_simps ex_dao_cell_def)
  have scaled: "mul_div_u64 5900000000 1100 1000 = Inr 6490000000"
    by (simp add: mul_div_u64_Inr)
  have paid: "safe_add (shannons 6490000000) (Capacity 4100000000) = Inr (Capacity 10590000000)"
    by (simp add: cap_simps)
  have w: "calculate_maximum_withdraw le_words ex_dao_chain ex_dao_cell cap_zero [1] [2] = Inr (Capacity 10590000000)"
    by (simp add: calculate_maximum_withdraw_def ex_dao_chain_def ok_or_def ex_dao_header_fields
        ex_dao_cell_occupied counted scaled paid word_le_nat_alt)
  from dao_withdraw_exact [OF w _ _ ex_dao_header_fields(1) ex_dao_header_fields(1) ex_dao_cell_occupied] w
  show ?thesis by (simp add: ex_dao_chain_def)
qed

text \<open>C21. The DAO field of a block accounts for its issuance exactly: the total issuance \<open>C\<close> grows by
  the primary and secondary rewards of the block, the occupied capacity \<open>U\<close> by what the outputs
  occupy less what the inputs free, the deposit fund \<open>S\<close> by the secondary issuance that does
  not go to miners less the interest withdrawn, and the accumulated rate by its share of the
  secondary issuance, so it never falls.\<close>

theorem dao_field_accounts:
  assumes "dao_field_with_current_epoch bo wa consensus get_header load rtxs parent epoch = Inr d"
    and "byteorder_ok bo"
    and "extract_dao_data bo (h_dao parent) = (ar, c, s, u)"
    and "extract_dao_data bo d = (ar', c', s', u')"
  shows "\<exists>n g1 g2 added freed interests.
    unat n = unat (h_number parent) + 1 \<and>
    block_reward epoch n = Inr g1 \<and>
    secondary_block_issuance epoch n (c_secondary_epoch_reward consensus) = Inr g2 \<and>
    added_occupied_capacities rtxs = Inr added \<and>
    try_fold (\<lambda>capacities rtx. r_bind (input_occupied_capacities consensus rtx) (safe_add capacities)) cap_zero rtxs
      = Inr freed \<and>
    withdrawed_interests bo wa (c_dao_type_hash consensus) get_header load rtxs = Inr interests \<and>
    cap_nat c' = cap_nat c + cap_nat g1 + cap_nat g2 \<and>
    cap_nat u' + cap_nat freed = cap_nat u + cap_nat added \<and>
    cap_nat s' + cap_nat interests = cap_nat s + (cap_nat g2 - cap_nat g2 * cap_nat u div cap_nat c) \<and>
    unat ar' = unat ar + unat ar * cap_nat g2 div cap_nat c \<and> ar \<le> ar'"
proof -
  obtain n g1 g2 added freed interests where
    "unat n = unat (h_number parent) + 1" "block_reward epoch n = Inr g1"
    "secondary_block_issuance epoch n (c_secondary_epoch_reward consensus) = Inr g2"
    "added_occupied_capacities rtxs = Inr added"
    "try_fold (\<lambda>capacities rtx. r_bind (input_occupied_capacities consensus rtx) (safe_add capacities)) cap_zero rtxs
      = Inr freed"
    "withdrawed_interests bo wa (c_dao_type_hash consensus) get_header load rtxs = Inr interests"
    "cap_nat c' = cap_nat c + cap_nat g1 + cap_nat g2"
    "cap_nat u' + cap_nat freed = cap_nat u + cap_nat added"
    "cap_nat s' + cap_nat interests = cap_nat s + (cap_nat g2 - cap_nat g2 * cap_nat u div cap_nat c)"
    "unat ar' = unat ar + unat ar * cap_nat g2 div cap_nat c"
    using dao_field_Inr [OF assms] by blast
  moreover from this have "ar \<le> ar'" by (simp add: word_le_nat_alt)
  ultimately show ?thesis by blast
qed

definition ex_consensus :: Consensus where
  "ex_consensus = \<lparr>c_tx_version = 0, c_max_block_bytes = 597000, c_max_block_proposals_limit = 1500, c_max_uncles_num = 2,
     c_max_block_cycles = 3500000000, c_cellbase_maturity = enf_new 4 0 1, c_median_time_block_count = 37,
     c_tx_proposal_window = ProposalWindow 2 10, c_dao_type_hash = [7], c_secondary_epoch_reward = Capacity 100,
     c_initial_primary_epoch_reward = Capacity 1000, c_satoshi_pubkey_hash = [], c_satoshi_cell_occupied_ratio = \<lparr>numer = 6, denom = 10\<rparr>,
     c_starting_block_limiting_dao_withdrawing_lock = 10000000, c_genesis_epoch_ext = ex_epoch, c_genesis_block = ex_block,
     c_proposer_reward_ratio = \<lparr>numer = 4, denom = 10\<rparr>,
     c_ckb2021 = \<lparr>rfc_0028 = 0, rfc_0029 = 0, rfc_0030 = 0, rfc_0031 = 0, rfc_0032 = 0, rfc_0036 = 0, rfc_0038 = 0\<rparr>,
     c_permanent_difficulty_in_dummy = False, c_orphan_rate_target = rat_new_raw 1 40, c_epoch_duration_target = 14400,
     c_primary_epoch_reward_halving_interval = 8760, c_pow_is_dummy = False\<rparr>"

theorem dao_field_accounts_witness:
  "\<exists>d ar' c' s' u'. dao_field_with_current_epoch le_words (\<lambda>_. None) ex_consensus (\<lambda>_. None) (\<lambda>_. None) []
     (ex_dao_header 100 1000) ex_epoch = Inr d \<and> extract_dao_data le_words d = (ar', c', s', u') \<and> (1000 :: u64) \<le> ar'"
proof -
  let ?f = "dao_field_with_current_epoch le_words (\<lambda>_. None) ex_consensus (\<lambda>_. None) (\<lambda>_. None) []
     (ex_dao_header 100 1000) ex_epoch"
  have n: "checked_add (100 :: u64) 1 = Some 101" by (simp add: checked_add_Some)
  have g2: "secondary_block_issuance ex_epoch 101 (Capacity 100) = Inr (Capacity 33)"
    by (simp add: secondary_block_issuance_def ex_epoch_def checked_sub_def shannons_def)
  have g1: "block_reward ex_epoch 101 = Inr (Capacity 11)"
    by (simp add: block_reward_def ex_epoch_def checked_sub_def cap_simps)
  have g: "safe_add (Capacity 11) (Capacity 33) = Inr (Capacity 44)"
    and c: "safe_add (Capacity 1000) (Capacity 44) = Inr (Capacity 1044)"
    and dao: "safe_sub (Capacity 33) (shannons 16) = Inr (Capacity 17)"
    and u: "safe_add (Capacity 500) cap_zero = Inr (Capacity 500)" "safe_sub (Capacity 500) cap_zero = Inr (Capacity 500)"
    and s: "safe_add (Capacity 0) (Capacity 17) = Inr (Capacity 17)" "safe_sub (Capacity 17) cap_zero = Inr (Capacity 17)"
    and z: "safe_sub cap_zero cap_zero = Inr cap_zero"
    by (simp_all add: cap_simps)
  have m: "mul_div_u64 33 500 1000 = Inr 16" "mul_div_u64 1000 33 1000 = Inr 33"
    "checked_add (1000 :: u64) 33 = Some 1033"
    by (simp_all add: mul_div_u64_Inr checked_add_Some)
  have "?f = Inr (pack_dao_data le_words 1033 (Capacity 1044) (Capacity 17) (Capacity 500))"
    by (simp add: dao_field_with_current_epoch_def ex_dao_header_fields n added_occupied_capacities_def
        withdrawed_interests_def ex_consensus_def g1 g2 g c dao u s z m dao_err_def ok_or_def)
  then obtain d where d: "?f = Inr d" by blast
  obtain ar' c' s' u' where e: "extract_dao_data le_words d = (ar', c', s', u')" by (metis prod_cases4)
  from dao_field_accounts [OF d le_words_ok ex_dao_header_fields(1) e] d e show ?thesis by blast
qed

text \<open>C23. The fee of a transaction whose inputs hold no DAO cell is exactly what its inputs hold less
  what its outputs hold, and the calculation fails when the outputs hold more.\<close>

theorem transaction_fee_balances:
  assumes "\<forall>m\<in>set (resolved_inputs rtx). \<not> cell_uses_dao_type_script (cell_output m) dao_type_hash"
  shows "transaction_fee bo wa dao_type_hash get_header load rtx = Inr fee \<longleftrightarrow>
         (\<exists>i outs. inputs_capacity rtx = Inr i \<and> outputs_capacity rtx = Inr outs \<and> cap_nat i = cap_nat outs + cap_nat fee)"
  by (rule plain_fee_balances [OF assms])

definition ex_plain_rtx :: ResolvedTransaction where
  "ex_plain_rtx = \<lparr>rtx_transaction = ex_tx [3] [ex_spend [2]], resolved_cell_deps = [],
     resolved_inputs = [from_cell_output (\<lambda>d. d) (ex_output\<lparr>co_capacity := 150\<rparr>) []], resolved_dep_groups = []\<rparr>"

theorem transaction_fee_balances_witness:
  "transaction_fee le_words (\<lambda>_. None) [7] (\<lambda>_. None) (\<lambda>_. None) ex_plain_rtx = Inr (Capacity 50)"
proof -
  have "\<forall>m\<in>set (resolved_inputs ex_plain_rtx). \<not> cell_uses_dao_type_script (cell_output m) [7]"
    by (simp add: ex_plain_rtx_def cell_uses_dao_type_script_def from_cell_output_def ex_output_def)
  moreover have "inputs_capacity ex_plain_rtx = Inr (Capacity 150)" "outputs_capacity ex_plain_rtx = Inr (Capacity 100)"
    by (simp_all add: inputs_capacity_def outputs_capacity_def tx_outputs_capacity_def try_fold_safe_add_Inr
        ex_plain_rtx_def from_cell_output_def meta_capacity_def ex_tx_def ex_output_def result_simps cap_simps)
  ultimately show ?thesis by (simp add: transaction_fee_balances)
qed

end
