(* ===== verification/Tx_Verifier.thy ===== *)
theory Tx_Verifier
  imports Header_Provider Dao
begin

unbundle bit_operations_syntax

text \<open>
  Transaction verification: \<open>verification/src/transaction_verifier.rs\<close> with the environment of
  \<open>script/src/verify_env.rs\<close>. Each verifier is one definition returning the first error in the code's
  order. Serialised sizes (molecule) and the execution of scripts in the VM are arguments. A panic
  (overflow of a plain operator, \<open>expect\<close>) is the error \<open>ErrPanic\<close>.

  The lemmas characterise every verifier by the rule it enforces: which transactions the
  context-independent checks accept, that an accepted transaction creates no capacity and stores no
  cell it has not paid for, when cellbase outputs are mature, and when the \<open>since\<close> field of an input is satisfied.
\<close>

section \<open>Errors\<close>

datatype TransactionErrorSource = SrcCellDeps | SrcHeaderDeps | SrcInputs | SrcOutputs | SrcOutputsData | SrcWitnesses

datatype TransactionError =
    InsufficientCellCapacity TransactionErrorSource nat capacity capacity
  | OutputsSumOverflow capacity capacity
  | EmptyTx TransactionErrorSource
  | DuplicateCellDeps OutPoint
  | DuplicateHeaderDeps byte32
  | OutputsDataLengthMismatch nat nat
  | InvalidSince nat
  | Immature nat
  | CellbaseImmaturity TransactionErrorSource nat
  | MismatchedVersion u32 u32
  | ExceededMaximumBlockBytes u64 u64
  | CompatibleErr string
  | DaoLockSizeMismatch nat
  | DaoOutputDataMismatch nat
  | ScriptHashTypeNotPermitted u8
  | InvalidScriptHashType u8
  | InternalErr string

datatype ScriptError = ExceededMaximumCycles u64 | OtherScriptError string

datatype Error = ErrTransaction TransactionError | ErrCapacity capacity_error | ErrDao DaoError
  | ErrScript ScriptError | ErrPanic

definition is_malformed_tx :: "TransactionError \<Rightarrow> bool" where
  "is_malformed_tx e =
     (case e of
       OutputsSumOverflow _ _ \<Rightarrow> True | DuplicateCellDeps _ \<Rightarrow> True | DuplicateHeaderDeps _ \<Rightarrow> True
     | EmptyTx _ \<Rightarrow> True | InsufficientCellCapacity _ _ _ _ \<Rightarrow> True | InvalidSince _ \<Rightarrow> True
     | ExceededMaximumBlockBytes _ _ \<Rightarrow> True | InvalidScriptHashType _ \<Rightarrow> True
     | ScriptHashTypeNotPermitted _ \<Rightarrow> True | DaoOutputDataMismatch _ \<Rightarrow> True
     | OutputsDataLengthMismatch _ _ \<Rightarrow> True | _ \<Rightarrow> False)"

definition cap_result :: "capacity_error + 'a \<Rightarrow> Error + 'a" where
  "cap_result r = (case r of Inl e \<Rightarrow> Inl (ErrCapacity e) | Inr a \<Rightarrow> Inr a)"

definition dao_result :: "DaoError + 'a \<Rightarrow> Error + 'a" where
  "dao_result r = (case r of Inl e \<Rightarrow> Inl (ErrDao e) | Inr a \<Rightarrow> Inr a)"

section \<open>The verification environment\<close>

datatype TxVerifyPhase = Submitted | Proposed u64 | Committed

record TxVerifyEnv =
  te_phase :: TxVerifyPhase
  te_number :: u64
  te_epoch :: EpochNumberWithFraction
  te_hash :: byte32
  te_parent_hash :: byte32

definition env_of :: "TxVerifyPhase \<Rightarrow> HeaderView \<Rightarrow> TxVerifyEnv" where
  "env_of phase header =
     \<lparr>te_phase = phase, te_number = h_number header, te_epoch = h_epoch header,
      te_hash = h_hash header, te_parent_hash = h_parent_hash header\<rparr>"

definition new_submit :: "HeaderView \<Rightarrow> TxVerifyEnv" where
  "new_submit header = env_of Submitted header"

definition new_proposed :: "HeaderView \<Rightarrow> u64 \<Rightarrow> TxVerifyEnv" where
  "new_proposed header n_blocks = env_of (Proposed n_blocks) header"

definition new_commit :: "HeaderView \<Rightarrow> TxVerifyEnv" where
  "new_commit header = env_of Committed header"

definition env_block_number :: "TxVerifyEnv \<Rightarrow> ProposalWindow \<Rightarrow> u64 option" where
  "env_block_number self w =
     (case te_phase self of
       Submitted \<Rightarrow> Option.bind (checked_add (te_number self) 1) (\<lambda>n. checked_add n (closest w))
     | Proposed already_proposed \<Rightarrow> checked_add (saturating_sub (te_number self) already_proposed) (closest w)
     | Committed \<Rightarrow> Some (te_number self))"

definition env_epoch_number :: "TxVerifyEnv \<Rightarrow> ProposalWindow \<Rightarrow> u64 option" where
  "env_epoch_number self w =
     map_option (minimum_epoch_number_after_n_blocks (te_epoch self))
       (case te_phase self of
         Submitted \<Rightarrow> checked_add 1 (closest w)
       | Proposed already_proposed \<Rightarrow> Some (saturating_sub (closest w) already_proposed)
       | Committed \<Rightarrow> Some 0)"

definition env_parent_hash :: "TxVerifyEnv \<Rightarrow> byte32" where
  "env_parent_hash self =
     (case te_phase self of Submitted \<Rightarrow> te_hash self | Proposed _ \<Rightarrow> te_hash self | Committed \<Rightarrow> te_parent_hash self)"

definition epoch_number_without_proposal_window :: "TxVerifyEnv \<Rightarrow> u64" where
  "epoch_number_without_proposal_window self =
     minimum_epoch_number_after_n_blocks (te_epoch self)
       (case te_phase self of Submitted \<Rightarrow> 1 | Proposed _ \<Rightarrow> 1 | Committed \<Rightarrow> 0)"

section \<open>Context-independent checks\<close>

definition version_verify :: "u32 \<Rightarrow> TransactionView \<Rightarrow> Error + unit" where
  "version_verify expected tx =
     (if tx_version tx \<noteq> expected then Inl (ErrTransaction (MismatchedVersion expected (tx_version tx))) else Inr ())"

definition size_verify :: "(TransactionView \<Rightarrow> u64) \<Rightarrow> u64 \<Rightarrow> TransactionView \<Rightarrow> Error + unit" where
  "size_verify serialized_size_in_block block_bytes_limit tx =
     (let size = serialized_size_in_block tx
      in if size \<le> block_bytes_limit then Inr ()
         else Inl (ErrTransaction (ExceededMaximumBlockBytes block_bytes_limit size)))"

definition empty_verify :: "TransactionView \<Rightarrow> Error + unit" where
  "empty_verify tx =
     (if inputs tx = [] then Inl (ErrTransaction (EmptyTx SrcInputs))
      else if outputs tx = [] \<and> \<not> tx_is_cellbase tx then Inl (ErrTransaction (EmptyTx SrcOutputs))
      else Inr ())"

definition duplicate_deps_verify :: "TransactionView \<Rightarrow> Error + unit" where
  "duplicate_deps_verify tx =
     (case first_dup {} (cell_deps tx) of
       Some dep \<Rightarrow> Inl (ErrTransaction (DuplicateCellDeps (cd_out_point dep)))
     | None \<Rightarrow>
         (case first_dup {} (header_deps tx) of
           Some hash \<Rightarrow> Inl (ErrTransaction (DuplicateHeaderDeps hash))
         | None \<Rightarrow> Inr ()))"

definition outputs_data_verify :: "TransactionView \<Rightarrow> Error + unit" where
  "outputs_data_verify tx =
     (if length (outputs tx) \<noteq> length (outputs_data tx)
      then Inl (ErrTransaction (OutputsDataLengthMismatch (length (outputs tx)) (length (outputs_data tx))))
      else Inr ())"

definition output_hash_type_verify :: "CellOutput \<Rightarrow> Error + unit" where
  "output_hash_type_verify out =
     (case script_hash_type_of (hash_type (co_lock out)) of
       Some t \<Rightarrow>
         (let v = script_hash_type_value t
          in if v \<notin> set ENABLED_SCRIPT_HASH_TYPE then Inl (ErrTransaction (ScriptHashTypeNotPermitted v)) else Inr ())
     | None \<Rightarrow> Inl (ErrTransaction (InvalidScriptHashType (hash_type (co_lock out)))))"

definition script_hash_type_verify :: "TransactionView \<Rightarrow> Error + unit" where
  "script_hash_type_verify tx = try_each output_hash_type_verify (outputs tx)"

definition non_contextual_verify :: "(TransactionView \<Rightarrow> u64) \<Rightarrow> Consensus \<Rightarrow> TransactionView \<Rightarrow> Error + unit" where
  "non_contextual_verify serialized_size_in_block consensus tx =
     r_then (version_verify (c_tx_version consensus) tx)
    (r_then (size_verify serialized_size_in_block (c_max_block_bytes consensus) tx)
    (r_then (empty_verify tx)
    (r_then (duplicate_deps_verify tx)
    (r_then (outputs_data_verify tx)
            (script_hash_type_verify tx)))))"

section \<open>Maturity of cellbase outputs\<close>

definition cellbase_immature ::
    "u256_lib \<Rightarrow> EpochNumberWithFraction \<Rightarrow> EpochNumberWithFraction \<Rightarrow> CellMeta \<Rightarrow> bool option" where
  "cellbase_immature L epoch cellbase_maturity m =
     (case transaction_info m of
       None \<Rightarrow> Some False
     | Some info \<Rightarrow>
         (if ti_block_number info > 0 \<and> info_is_cellbase info
          then Option.bind (enf_to_rational L cellbase_maturity) (\<lambda>a.
               Option.bind (enf_to_rational L (ti_block_epoch info)) (\<lambda>b.
               Option.bind (rat_add L a b) (\<lambda>threshold.
               Option.bind (enf_to_rational L epoch) (\<lambda>current.
                 Some (rat_cmp L current threshold = Less)))))
          else Some False))"

definition maturity_verify ::
    "u256_lib \<Rightarrow> EpochNumberWithFraction \<Rightarrow> EpochNumberWithFraction \<Rightarrow> ResolvedTransaction \<Rightarrow> Error + unit" where
  "maturity_verify L epoch cellbase_maturity rtx =
     (case position_opt (cellbase_immature L epoch cellbase_maturity) (resolved_inputs rtx) of
       None \<Rightarrow> Inl ErrPanic
     | Some (Some index) \<Rightarrow> Inl (ErrTransaction (CellbaseImmaturity SrcInputs index))
     | Some None \<Rightarrow>
         (case position_opt (cellbase_immature L epoch cellbase_maturity) (resolved_cell_deps rtx) of
           None \<Rightarrow> Inl ErrPanic
         | Some (Some index) \<Rightarrow> Inl (ErrTransaction (CellbaseImmaturity SrcCellDeps index))
         | Some None \<Rightarrow> Inr ()))"

section \<open>Capacity\<close>

definition valid_dao_withdraw_transaction :: "byte32 \<Rightarrow> ResolvedTransaction \<Rightarrow> bool" where
  "valid_dao_withdraw_transaction dao_type_hash rtx =
     list_ex (\<lambda>m. cell_uses_dao_type_script (cell_output m) dao_type_hash) (resolved_inputs rtx)"

definition output_capacity_verify :: "nat \<times> CellOutput \<times> u8 list \<Rightarrow> Error + unit" where
  "output_capacity_verify =
     (\<lambda>(index, out, data).
        r_bind (cap_result (cap_bytes (word_of_nat (length data)))) (\<lambda>data_occupied.
        r_bind (cap_result (is_lack_of_capacity out data_occupied)) (\<lambda>lack.
          if lack
          then r_bind (cap_result (occupied_capacity out data_occupied)) (\<lambda>occupied.
                 Inl (ErrTransaction (InsufficientCellCapacity SrcOutputs index occupied (shannons (co_capacity out)))))
          else Inr ())))"

definition capacity_verify :: "byte32 \<Rightarrow> ResolvedTransaction \<Rightarrow> Error + unit" where
  "capacity_verify dao_type_hash rtx =
     r_then
       (if \<not> (rtx_is_cellbase rtx \<or> valid_dao_withdraw_transaction dao_type_hash rtx)
        then r_bind (cap_result (inputs_capacity rtx)) (\<lambda>inputs_sum.
             r_bind (cap_result (outputs_capacity rtx)) (\<lambda>outputs_sum.
               if inputs_sum < outputs_sum
               then Inl (ErrTransaction (OutputsSumOverflow inputs_sum outputs_sum)) else Inr ()))
        else Inr ())
       (try_each output_capacity_verify (enumerate 0 (outputs_with_data (rtx_transaction rtx))))"

section \<open>The since field\<close>

definition LOCK_TYPE_FLAG :: u64 where "LOCK_TYPE_FLAG = push_bit 63 1"
definition METRIC_TYPE_FLAG_MASK :: u64 where "METRIC_TYPE_FLAG_MASK = 0x6000000000000000"
definition VALUE_MASK :: u64 where "VALUE_MASK = 0x00ffffffffffffff"
definition REMAIN_FLAGS_BITS :: u64 where "REMAIN_FLAGS_BITS = 0x1f00000000000000"

datatype SinceMetric = SinceBlockNumber u64 | SinceEpoch EpochNumberWithFraction | SinceTimestamp u64

definition is_absolute :: "u64 \<Rightarrow> bool" where
  "is_absolute since \<longleftrightarrow> since AND LOCK_TYPE_FLAG = 0"

definition is_relative :: "u64 \<Rightarrow> bool" where
  "is_relative since \<longleftrightarrow> \<not> is_absolute since"

definition flags_is_valid :: "u64 \<Rightarrow> bool" where
  "flags_is_valid since \<longleftrightarrow>
     since AND REMAIN_FLAGS_BITS = 0 \<and> since AND METRIC_TYPE_FLAG_MASK \<noteq> METRIC_TYPE_FLAG_MASK"

definition extract_metric :: "u64 \<Rightarrow> SinceMetric option" where
  "extract_metric since =
     (let v = since AND VALUE_MASK; flag = since AND METRIC_TYPE_FLAG_MASK
      in if flag = 0 then Some (SinceBlockNumber v)
         else if flag = 0x2000000000000000 then Some (SinceEpoch (from_full_value_unchecked v))
         else if flag = 0x4000000000000000 then map_option SinceTimestamp (checked_mul v 1000)
         else None)"

definition since_median_time :: "Consensus \<Rightarrow> (byte32 \<Rightarrow> HeaderFields option) \<Rightarrow> byte32 \<Rightarrow> u64 option" where
  "since_median_time consensus get_header_fields block_hash =
     block_median_time get_header_fields block_hash (c_median_time_block_count consensus)"

definition parent_median_time :: "Consensus \<Rightarrow> (byte32 \<Rightarrow> HeaderFields option) \<Rightarrow> byte32 \<Rightarrow> u64 option" where
  "parent_median_time consensus get_header_fields block_hash =
     (case get_header_fields block_hash of
       None \<Rightarrow> None
     | Some f \<Rightarrow> since_median_time consensus get_header_fields (hf_parent_hash f))"

text \<open>Comparison of a computed position with a required one: a panic, \<open>Immature\<close>, or accepted.\<close>

definition require_at_least :: "nat \<Rightarrow> u64 option \<Rightarrow> u64 \<Rightarrow> Error + unit" where
  "require_at_least index current required =
     (case current of
       None \<Rightarrow> Inl ErrPanic
     | Some c \<Rightarrow> if c < required then Inl (ErrTransaction (Immature index)) else Inr ())"

definition require_epoch ::
    "u256_lib \<Rightarrow> nat \<Rightarrow> EpochNumberWithFraction \<Rightarrow> RationalU256 option \<Rightarrow> Error + unit" where
  "require_epoch L index epoch required =
     (case (enf_to_rational L epoch, required) of
       (Some a, Some b) \<Rightarrow>
         if rat_cmp L a b = Less then Inl (ErrTransaction (Immature index)) else Inr ()
     | _ \<Rightarrow> Inl ErrPanic)"

definition verify_absolute_lock ::
    "u256_lib \<Rightarrow> Consensus \<Rightarrow> (byte32 \<Rightarrow> HeaderFields option) \<Rightarrow> TxVerifyEnv \<Rightarrow> nat \<Rightarrow> u64 \<Rightarrow> Error + unit" where
  "verify_absolute_lock L consensus get_header_fields env index since =
     (if is_absolute since
      then (case extract_metric since of
        Some (SinceBlockNumber block_number) \<Rightarrow>
          require_at_least index (env_block_number env (c_tx_proposal_window consensus)) block_number
      | Some (SinceEpoch e) \<Rightarrow>
          (if \<not> is_well_formed_increment e then Inl (ErrTransaction (InvalidSince index))
           else require_epoch L index (te_epoch env) (enf_to_rational L (enf_normalize e)))
      | Some (SinceTimestamp timestamp) \<Rightarrow>
          require_at_least index (since_median_time consensus get_header_fields (env_parent_hash env)) timestamp
      | None \<Rightarrow> Inl (ErrTransaction (InvalidSince index)))
      else Inr ())"

text \<open>The start of a relative timestamp: the block's own timestamp, or before RFC 28 the median time of its parent.\<close>

definition relative_base_timestamp ::
    "Consensus \<Rightarrow> (byte32 \<Rightarrow> HeaderFields option) \<Rightarrow> TxVerifyEnv \<Rightarrow> TransactionInfo \<Rightarrow> u64 option" where
  "relative_base_timestamp consensus get_header_fields env info =
     (case env_epoch_number env (c_tx_proposal_window consensus) of
       None \<Rightarrow> None
     | Some epoch_number \<Rightarrow>
         (if is_block_ts_as_relative_since_start_enabled (c_ckb2021 consensus) epoch_number
          then map_option hf_timestamp (get_header_fields (ti_block_hash info))
          else parent_median_time consensus get_header_fields (ti_block_hash info)))"

definition verify_relative_lock ::
    "u256_lib \<Rightarrow> Consensus \<Rightarrow> (byte32 \<Rightarrow> HeaderFields option) \<Rightarrow> TxVerifyEnv \<Rightarrow> nat \<Rightarrow> u64 \<Rightarrow> CellMeta \<Rightarrow> Error + unit" where
  "verify_relative_lock L consensus get_header_fields env index since m =
     (if is_relative since
      then (case transaction_info m of
        None \<Rightarrow> Inl (ErrTransaction (Immature index))
      | Some info \<Rightarrow>
          (case extract_metric since of
            Some (SinceBlockNumber block_number) \<Rightarrow>
              (case checked_add (ti_block_number info) block_number of
                None \<Rightarrow> Inl (ErrTransaction (InvalidSince index))
              | Some required \<Rightarrow>
                  require_at_least index (env_block_number env (c_tx_proposal_window consensus)) required)
          | Some (SinceEpoch e) \<Rightarrow>
              (if \<not> is_well_formed_increment e then Inl (ErrTransaction (InvalidSince index))
               else require_epoch L index (te_epoch env)
                      (Option.bind (enf_to_rational L (ti_block_epoch info)) (\<lambda>a.
                       Option.bind (enf_to_rational L (enf_normalize e)) (rat_add L a))))
          | Some (SinceTimestamp timestamp) \<Rightarrow>
              (case (relative_base_timestamp consensus get_header_fields env info,
                     since_median_time consensus get_header_fields (env_parent_hash env)) of
                (Some base_timestamp, Some current_median_time) \<Rightarrow>
                  (case checked_add base_timestamp timestamp of
                    None \<Rightarrow> Inl (ErrTransaction (InvalidSince index))
                  | Some required_timestamp \<Rightarrow>
                      require_at_least index (Some current_median_time) required_timestamp)
              | _ \<Rightarrow> Inl ErrPanic)
          | None \<Rightarrow> Inl (ErrTransaction (InvalidSince index))))
      else Inr ())"

definition input_since_verify ::
    "u256_lib \<Rightarrow> Consensus \<Rightarrow> (byte32 \<Rightarrow> HeaderFields option) \<Rightarrow> TxVerifyEnv
     \<Rightarrow> nat \<times> CellMeta \<times> CellInput \<Rightarrow> Error + unit" where
  "input_since_verify L consensus get_header_fields env =
     (\<lambda>(index, m, inp).
        (let since = ci_since inp
         in if since = 0 then Inr ()
            else if \<not> flags_is_valid since then Inl (ErrTransaction (InvalidSince index))
            else r_then (verify_absolute_lock L consensus get_header_fields env index since)
                        (verify_relative_lock L consensus get_header_fields env index since m)))"

definition since_verify ::
    "u256_lib \<Rightarrow> Consensus \<Rightarrow> (byte32 \<Rightarrow> HeaderFields option) \<Rightarrow> TxVerifyEnv \<Rightarrow> ResolvedTransaction \<Rightarrow> Error + unit" where
  "since_verify L consensus get_header_fields env rtx =
     try_each (input_since_verify L consensus get_header_fields env)
       (enumerate 0 (zip (resolved_inputs rtx) (inputs (rtx_transaction rtx))))"

section \<open>DAO lock sizes\<close>

definition dao_pair_verify ::
    "(Script \<Rightarrow> nat) \<Rightarrow> Consensus \<Rightarrow> (CellMeta \<Rightarrow> u8 list option) \<Rightarrow> nat \<times> CellMeta \<times> CellOutput \<Rightarrow> Error + unit" where
  "dao_pair_verify total_size consensus load_cell_data =
     (\<lambda>(i, m, out).
        if \<not> (cell_uses_dao_type_script (cell_output m) (c_dao_type_hash consensus) \<and>
              cell_uses_dao_type_script out (c_dao_type_hash consensus)) then Inr ()
        else (case load_cell_data m of
          None \<Rightarrow> Inr ()
        | Some input_data \<Rightarrow>
            if list_ex (\<lambda>b. b \<noteq> 0) input_data then Inr ()
            else if (case transaction_info m of
                       Some info \<Rightarrow> ti_block_number info < c_starting_block_limiting_dao_withdrawing_lock consensus
                     | None \<Rightarrow> False) then Inr ()
            else if total_size (co_lock (cell_output m)) \<noteq> total_size (co_lock out)
              then Inl (ErrTransaction (DaoLockSizeMismatch i)) else Inr ()))"

definition same_index_input_is_dao_deposit ::
    "byte32 \<Rightarrow> (CellMeta \<Rightarrow> u8 list option) \<Rightarrow> ResolvedTransaction \<Rightarrow> nat \<Rightarrow> bool" where
  "same_index_input_is_dao_deposit dao_type_hash load_cell_data rtx index =
     (case get_nth (resolved_inputs rtx) index of
       None \<Rightarrow> False
     | Some m \<Rightarrow>
         if \<not> cell_uses_dao_type_script (cell_output m) dao_type_hash then False
         else (case load_cell_data m of None \<Rightarrow> False | Some input_data \<Rightarrow> list_all (\<lambda>b. b = 0) input_data))"

definition dao_output_data_verify ::
    "byte32 \<Rightarrow> (CellMeta \<Rightarrow> u8 list option) \<Rightarrow> ResolvedTransaction \<Rightarrow> nat \<times> CellOutput \<Rightarrow> Error + unit" where
  "dao_output_data_verify dao_type_hash load_cell_data rtx =
     (\<lambda>(index, out).
        if \<not> cell_uses_dao_type_script out dao_type_hash then Inr ()
        else (case get_nth (outputs_data (rtx_transaction rtx)) index of
          None \<Rightarrow> Inr ()
        | Some output_data \<Rightarrow>
            if list_all (\<lambda>b. b = 0) output_data then Inr ()
            else if \<not> same_index_input_is_dao_deposit dao_type_hash load_cell_data rtx index
              then Inl (ErrTransaction (DaoOutputDataMismatch index)) else Inr ()))"

definition dao_script_size_verify ::
    "(Script \<Rightarrow> nat) \<Rightarrow> Consensus \<Rightarrow> (CellMeta \<Rightarrow> u8 list option) \<Rightarrow> ResolvedTransaction \<Rightarrow> Error + unit" where
  "dao_script_size_verify total_size consensus load_cell_data rtx =
     r_then (try_each (dao_pair_verify total_size consensus load_cell_data)
               (enumerate 0 (zip (resolved_inputs rtx) (outputs (rtx_transaction rtx)))))
            (try_each (dao_output_data_verify (c_dao_type_hash consensus) load_cell_data rtx)
               (enumerate 0 (outputs (rtx_transaction rtx))))"

section \<open>The contextual verifier\<close>







section \<open>The context-independent rules\<close>

lemma cap_result_Inr [simp, result_simps]: "cap_result r = Inr a \<longleftrightarrow> r = Inr a"
  by (simp add: cap_result_def split: sum.splits)

lemma dao_result_Inr [simp, result_simps]: "dao_result r = Inr a \<longleftrightarrow> r = Inr a"
  by (simp add: dao_result_def split: sum.splits)

interpretation version_verifier: verifier "version_verify v" "\<lambda>tx. tx_version tx = v" for v
  by unfold_locales (simp add: version_verify_def)

interpretation size_verifier: verifier "size_verify tx_size limit" "\<lambda>tx. tx_size tx \<le> limit" for tx_size limit
  by unfold_locales (simp add: size_verify_def Let_def)

interpretation empty_verifier: verifier empty_verify "\<lambda>tx. inputs tx \<noteq> [] \<and> (outputs tx \<noteq> [] \<or> tx_is_cellbase tx)"
  by unfold_locales (auto simp: empty_verify_def)

interpretation duplicate_deps_verifier: verifier duplicate_deps_verify
  "\<lambda>tx. distinct (cell_deps tx) \<and> distinct (header_deps tx)"
proof
  fix tx
  show "duplicate_deps_verify tx = Inr () \<longleftrightarrow> distinct (cell_deps tx) \<and> distinct (header_deps tx)"
    using first_dup_None [of "{}" "cell_deps tx"] first_dup_None [of "{}" "header_deps tx"]
    by (auto simp: duplicate_deps_verify_def split: option.splits)
qed

interpretation outputs_data_verifier: verifier outputs_data_verify "\<lambda>tx. length (outputs tx) = length (outputs_data tx)"
  by unfold_locales (simp add: outputs_data_verify_def)

lemma enabled_hash_types: "script_hash_type_of v \<noteq> None" if "v \<in> set ENABLED_SCRIPT_HASH_TYPE"
  using that unfolding script_hash_type_of_defined by (auto simp: ENABLED_SCRIPT_HASH_TYPE_def verify_value_def)

interpretation output_hash_type_verifier: verifier output_hash_type_verify
  "\<lambda>out. hash_type (co_lock out) \<in> set ENABLED_SCRIPT_HASH_TYPE"
proof
  fix out
  show "output_hash_type_verify out = Inr () \<longleftrightarrow> hash_type (co_lock out) \<in> set ENABLED_SCRIPT_HASH_TYPE"
    using script_hash_type_round_trip [of "hash_type (co_lock out)"] enabled_hash_types [of "hash_type (co_lock out)"]
    by (auto simp: output_hash_type_verify_def Let_def split: option.splits)
qed

interpretation script_hash_type_verifier: verifier script_hash_type_verify
  "\<lambda>tx. \<forall>out\<in>set (outputs tx). hash_type (co_lock out) \<in> set ENABLED_SCRIPT_HASH_TYPE"
  by unfold_locales (simp add: script_hash_type_verify_def output_hash_type_verifier.batch_accepts)

interpretation body_verifier: verifier_seq outputs_data_verify "\<lambda>tx. length (outputs tx) = length (outputs_data tx)"
  script_hash_type_verify "\<lambda>tx. \<forall>out\<in>set (outputs tx). hash_type (co_lock out) \<in> set ENABLED_SCRIPT_HASH_TYPE"
  by unfold_locales

definition well_formed_tx :: "(TransactionView \<Rightarrow> u64) \<Rightarrow> Consensus \<Rightarrow> TransactionView \<Rightarrow> bool" where
  "well_formed_tx tx_size consensus tx \<longleftrightarrow>
     tx_version tx = c_tx_version consensus \<and> tx_size tx \<le> c_max_block_bytes consensus \<and>
     inputs tx \<noteq> [] \<and> (outputs tx \<noteq> [] \<or> tx_is_cellbase tx) \<and>
     distinct (cell_deps tx) \<and> distinct (header_deps tx) \<and>
     length (outputs tx) = length (outputs_data tx) \<and>
     (\<forall>out\<in>set (outputs tx). hash_type (co_lock out) \<in> {0, 1, 2, 4})"

lemma non_contextual_verify_iff:
  "non_contextual_verify tx_size consensus tx = Inr () \<longleftrightarrow> well_formed_tx tx_size consensus tx"
  using body_verifier.both.accepts [of tx]
  by (auto simp: non_contextual_verify_def well_formed_tx_def r_then_Inr version_verifier.accepts size_verifier.accepts
      empty_verifier.accepts duplicate_deps_verifier.accepts ENABLED_SCRIPT_HASH_TYPE_def)

interpretation non_contextual_verifier: verifier "non_contextual_verify tx_size consensus" "well_formed_tx tx_size consensus"
  for tx_size consensus
  by unfold_locales (rule non_contextual_verify_iff)

section \<open>The capacity rules\<close>

lemma is_lack_of_capacity_Inr:
  assumes "cell_in_memory out"
  shows "is_lack_of_capacity out d = Inr b \<longleftrightarrow>
    (cell_bytes out * 100000000 + cap_nat d < 2 ^ 64 \<and>
     b = (unat (co_capacity out) < cell_bytes out * 100000000 + cap_nat d))"
proof -
  have "(\<exists>c. cap_nat c = n \<and> P (cap_nat c)) \<longleftrightarrow> n < 2 ^ 64 \<and> P n" for n P
    using cap_nat_bound by (auto intro: exI [of _ "Capacity (word_of_nat n)"] simp: unat_of_nat)
  from this [of "cell_bytes out * 100000000 + cap_nat d" "\<lambda>n. b = (unat (co_capacity out) < n)"]
  show ?thesis
    by (auto simp: is_lack_of_capacity_def r_map_Inr occupied_capacity_Inr [OF assms] cap_less_iff)
qed

text \<open>An accepted output holds a CKByte for each byte it stores.\<close>

lemma output_capacity_verify_sound:
  assumes "output_capacity_verify (i, out, data) = Inr ()" "cell_in_memory out" "length data < 2 ^ 64"
  shows "(cell_bytes out + length data) * 100000000 \<le> unat (co_capacity out)"
proof -
  obtain d where d: "cap_bytes (word_of_nat (length data)) = Inr d" "is_lack_of_capacity out d = Inr False"
    using assms(1) by (auto simp: output_capacity_verify_def result_simps split: if_splits)
  have "cap_nat d = length data * 100000000"
    using d(1) assms(3) by (simp add: cap_simps unat_of_nat)
  then show ?thesis using d(2) assms(2) by (simp add: is_lack_of_capacity_Inr algebra_simps)
qed

lemma capacity_verify_sound:
  assumes "capacity_verify dao_type_hash rtx = Inr ()"
  shows "\<not> rtx_is_cellbase rtx \<Longrightarrow> \<not> valid_dao_withdraw_transaction dao_type_hash rtx \<Longrightarrow>
      \<exists>i outs. inputs_capacity rtx = Inr i \<and> outputs_capacity rtx = Inr outs \<and> outs \<le> i"
    and "n < length (outputs_with_data (rtx_transaction rtx)) \<Longrightarrow>
      output_capacity_verify (n, outputs_with_data (rtx_transaction rtx) ! n) = Inr ()"
  using assms
  by (auto simp: capacity_verify_def r_then_Inr result_simps Ball_enumerate not_less split: if_splits)

section \<open>Epoch positions\<close>

definition epoch_ok :: "EpochNumberWithFraction \<Rightarrow> bool" where
  "epoch_ok e \<longleftrightarrow> enf_length e \<noteq> 0 \<or> full_value e = 0"

lemma enf_val_zero: "full_value e = 0 \<Longrightarrow> enf_val e = 0"
  by (simp add: enf_val_def enf_fields)

lemma epoch_rational:
  assumes "u256_ok L" "epoch_ok e"
  shows "\<exists>r. enf_to_rational L e = Some r \<and> rat_wf r \<and> rat_val r = enf_val e \<and> nn r < 2 ^ 41 \<and> dd r < 2 ^ 16"
proof (cases "full_value e = 0")
  case True
  then show ?thesis by (simp add: enf_to_rational_def enf_val_zero) (simp add: rat_zero_def rat_new_raw_def)
next
  case False
  then show ?thesis using enf_to_rational_val [OF assms(1)] assms(2) by (auto simp: epoch_ok_def)
qed

lemma mult_less_pow: "(x::nat) < 2 ^ j \<Longrightarrow> y < 2 ^ k \<Longrightarrow> x * y < 2 ^ (j + k)"
  unfolding power_add by (rule mult_strict_mono') auto

lemma epoch_sum_rational:
  assumes L: "u256_ok L" and "epoch_ok e" "epoch_ok e'"
  shows "\<exists>r. Option.bind (enf_to_rational L e) (\<lambda>a. Option.bind (enf_to_rational L e') (rat_add L a)) = Some r \<and>
    rat_wf r \<and> rat_val r = enf_val e + enf_val e' \<and> nn r < 2 ^ 58 \<and> dd r < 2 ^ 32"
proof -
  obtain a b where a: "enf_to_rational L e = Some a" "rat_wf a" "rat_val a = enf_val e" "nn a < 2 ^ 41" "dd a < 2 ^ 16"
    and b: "enf_to_rational L e' = Some b" "rat_wf b" "rat_val b = enf_val e'" "nn b < 2 ^ 41" "dd b < 2 ^ 16"
    using epoch_rational [OF L] assms(2,3) by meson
  have m: "nn a * dd b < 2 ^ (41 + 16)" "nn b * dd a < 2 ^ (41 + 16)" "dd a * dd b < 2 ^ (16 + 16)"
    using a b by (blast intro: mult_less_pow)+
  then have fits: "align_fits a b" using a(2) b(2) by (intro align_fits_small) simp_all
  obtain c where c: "rat_add L a b = Some c" "rat_wf c" "rat_val c = rat_val a + rat_val b"
    using rat_add_val [OF L a(2) b(2) fits] by blast
  show ?thesis
    using rat_add_bounds [OF L a(2) b(2) fits c(1)] m a b c by simp
qed

lemma epoch_cmp_sum:
  assumes L: "u256_ok L" and "rat_wf r" "nn r < 2 ^ 58" "dd r < 2 ^ 32" "epoch_ok e"
  shows "\<exists>a. enf_to_rational L e = Some a \<and> (rat_cmp L a r = Less \<longleftrightarrow> enf_val e < rat_val r)"
proof -
  obtain a where a: "enf_to_rational L e = Some a" "rat_wf a" "rat_val a = enf_val e" "nn a < 2 ^ 41" "dd a < 2 ^ 16"
    using epoch_rational [OF L assms(5)] by blast
  have "nn a * dd r < 2 ^ (41 + 32)" "nn r * dd a < 2 ^ (58 + 16)"
    using a assms by (blast intro: mult_less_pow)+
  then have "cmp_fits a r" by (simp add: cmp_fits_def)
  then show ?thesis using rat_cmp_val [OF L a(2) assms(2)] a by simp
qed

section \<open>The maturity rule\<close>

definition cellbase_mature :: "EpochNumberWithFraction \<Rightarrow> EpochNumberWithFraction \<Rightarrow> CellMeta \<Rightarrow> bool" where
  "cellbase_mature epoch cellbase_maturity m \<longleftrightarrow>
     (\<forall>info. transaction_info m = Some info \<and> ti_block_number info > 0 \<and> info_is_cellbase info \<longrightarrow>
        enf_val (ti_block_epoch info) + enf_val cellbase_maturity \<le> enf_val epoch)"

definition meta_epoch_ok :: "CellMeta \<Rightarrow> bool" where
  "meta_epoch_ok m \<longleftrightarrow> (\<forall>info. transaction_info m = Some info \<longrightarrow> epoch_ok (ti_block_epoch info))"

lemma cellbase_immature_iff:
  assumes L: "u256_ok L" and "epoch_ok epoch" "epoch_ok maturity" "meta_epoch_ok m"
  shows "cellbase_immature L epoch maturity m = Some (\<not> cellbase_mature epoch maturity m)"
proof (cases "\<exists>info. transaction_info m = Some info \<and> ti_block_number info > 0 \<and> info_is_cellbase info")
  case True
  then obtain info where i: "transaction_info m = Some info" "ti_block_number info > 0" "info_is_cellbase info" by blast
  have ok: "epoch_ok (ti_block_epoch info)" using assms(4) i(1) by (simp add: meta_epoch_ok_def)
  obtain r where r: "Option.bind (enf_to_rational L maturity)
      (\<lambda>a. Option.bind (enf_to_rational L (ti_block_epoch info)) (rat_add L a)) = Some r"
    and r': "rat_wf r" "nn r < 2 ^ 58" "dd r < 2 ^ 32"
    and v: "rat_val r = enf_val maturity + enf_val (ti_block_epoch info)"
    using epoch_sum_rational [OF L assms(3) ok] by blast
  obtain a where a: "enf_to_rational L epoch = Some a" "rat_cmp L a r = Less \<longleftrightarrow> enf_val epoch < rat_val r"
    using epoch_cmp_sum [OF L r' assms(2)] by blast
  show ?thesis
    using i r a v by (auto simp: cellbase_immature_def cellbase_mature_def bind_eq_Some_conv)
next
  case False
  then show ?thesis by (auto simp: cellbase_immature_def cellbase_mature_def split: option.splits)
qed

lemma maturity_verify_iff:
  assumes "u256_ok L" "epoch_ok epoch" "epoch_ok maturity"
    "\<forall>m\<in>set (resolved_inputs rtx) \<union> set (resolved_cell_deps rtx). meta_epoch_ok m"
  shows "maturity_verify L epoch maturity rtx = Inr () \<longleftrightarrow>
    (\<forall>m\<in>set (resolved_inputs rtx) \<union> set (resolved_cell_deps rtx). cellbase_mature epoch maturity m)"
proof -
  let ?P = "\<lambda>m. \<not> cellbase_mature epoch maturity m"
  have "position_opt (cellbase_immature L epoch maturity) (resolved_inputs rtx) = Some (position ?P (resolved_inputs rtx))"
    "position_opt (cellbase_immature L epoch maturity) (resolved_cell_deps rtx) = Some (position ?P (resolved_cell_deps rtx))"
    using assms by (auto intro!: position_opt_total cellbase_immature_iff)
  then show ?thesis
    using position_None [of ?P "resolved_inputs rtx"] position_None [of ?P "resolved_cell_deps rtx"]
    by (auto simp: maturity_verify_def split: option.splits)
qed

section \<open>The since rule\<close>











definition since_lock_ok ::
    "Consensus \<Rightarrow> (byte32 \<Rightarrow> HeaderFields option) \<Rightarrow> TxVerifyEnv \<Rightarrow> u64 \<Rightarrow> nat \<Rightarrow> rat \<Rightarrow> u64 option \<Rightarrow> bool" where
  "since_lock_ok consensus get_header_fields env since number epoch timestamp \<longleftrightarrow>
     (case extract_metric since of
       None \<Rightarrow> False
     | Some (SinceBlockNumber n) \<Rightarrow>
         \<exists>c. env_block_number env (c_tx_proposal_window consensus) = Some c \<and> number + unat n \<le> unat c
     | Some (SinceEpoch e) \<Rightarrow>
         is_well_formed_increment e \<and> epoch + enf_val e \<le> enf_val (te_epoch env)
     | Some (SinceTimestamp t) \<Rightarrow>
         \<exists>c b. since_median_time consensus get_header_fields (env_parent_hash env) = Some c \<and>
            timestamp = Some b \<and> unat b + unat t \<le> unat c)"

definition since_satisfied ::
    "Consensus \<Rightarrow> (byte32 \<Rightarrow> HeaderFields option) \<Rightarrow> TxVerifyEnv \<Rightarrow> CellMeta \<Rightarrow> u64 \<Rightarrow> bool" where
  "since_satisfied consensus get_header_fields env m since \<longleftrightarrow>
     since = 0 \<or>
     flags_is_valid since \<and>
     (if is_absolute since then since_lock_ok consensus get_header_fields env since 0 0 (Some 0)
      else \<exists>info. transaction_info m = Some info \<and>
        since_lock_ok consensus get_header_fields env since (unat (ti_block_number info))
          (enf_val (ti_block_epoch info)) (relative_base_timestamp consensus get_header_fields env info))"

lemma require_at_least_Inr:
  "require_at_least index current required = Inr () \<longleftrightarrow> (\<exists>c. current = Some c \<and> unat required \<le> unat c)"
  by (auto simp: require_at_least_def word_less_nat_alt not_less split: option.splits)

lemma require_epoch_Inr:
  assumes "u256_ok L" "epoch_ok e" "required = Some r" "rat_wf r" "nn r < 2 ^ 58" "dd r < 2 ^ 32"
  shows "require_epoch L index e required = Inr () \<longleftrightarrow> rat_val r \<le> enf_val e"
proof -
  obtain a where "enf_to_rational L e = Some a" "rat_cmp L a r = Less \<longleftrightarrow> enf_val e < rat_val r"
    using epoch_cmp_sum [OF assms(1,4-6,2)] by blast
  then show ?thesis using assms(3) by (simp add: require_epoch_def not_less)
qed

lemma normalized_increment:
  assumes "u256_ok L" "is_well_formed_increment e"
  shows "epoch_ok (enf_normalize e)" "enf_val (enf_normalize e) = enf_val e"
  using enf_normalize_length enf_normalize_val(2) [OF assms(2)] by (simp_all add: epoch_ok_def)

lemma verify_absolute_lock_iff:
  assumes L: "u256_ok L" and env: "epoch_ok (te_epoch env)" and abs: "is_absolute since"
  shows "verify_absolute_lock L consensus g env index since = Inr () \<longleftrightarrow> since_lock_ok consensus g env since 0 0 (Some 0)"
proof -
  have "require_epoch L index (te_epoch env) (enf_to_rational L (enf_normalize e)) = Inr () \<longleftrightarrow>
      enf_val e \<le> enf_val (te_epoch env)" if "is_well_formed_increment e" for e
  proof -
    note n = normalized_increment [OF L that]
    obtain r where r: "enf_to_rational L (enf_normalize e) = Some r" "rat_wf r" "rat_val r = enf_val e"
      "nn r < 2 ^ 41" "dd r < 2 ^ 16"
      using epoch_rational [OF L n(1)] n(2) by auto
    then show ?thesis using require_epoch_Inr [OF L env r(1,2)] by simp
  qed
  then show ?thesis
    using abs by (auto simp: verify_absolute_lock_def since_lock_ok_def require_at_least_Inr
        split: option.splits SinceMetric.splits)
qed

lemma verify_relative_lock_iff:
  assumes L: "u256_ok L" and env: "epoch_ok (te_epoch env)" and rel: "\<not> is_absolute since"
    and info: "transaction_info m = Some info" and ok: "epoch_ok (ti_block_epoch info)"
  shows "verify_relative_lock L consensus g env index since m = Inr () \<longleftrightarrow>
    since_lock_ok consensus g env since (unat (ti_block_number info)) (enf_val (ti_block_epoch info))
      (relative_base_timestamp consensus g env info)"
proof -
  have epoch: "require_epoch L index (te_epoch env) (Option.bind (enf_to_rational L (ti_block_epoch info)) (\<lambda>a.
        Option.bind (enf_to_rational L (enf_normalize e)) (rat_add L a))) = Inr () \<longleftrightarrow>
      enf_val (ti_block_epoch info) + enf_val e \<le> enf_val (te_epoch env)" if "is_well_formed_increment e" for e
  proof -
    note n = normalized_increment [OF L that]
    from epoch_sum_rational [OF L ok n(1)] obtain r where r: "Option.bind (enf_to_rational L (ti_block_epoch info)) (\<lambda>a.
        Option.bind (enf_to_rational L (enf_normalize e)) (rat_add L a)) = Some r" "rat_wf r"
      "rat_val r = enf_val (ti_block_epoch info) + enf_val (enf_normalize e)" "nn r < 2 ^ 58" "dd r < 2 ^ 32" by blast
    then show ?thesis using require_epoch_Inr [OF L env r(1,2,4,5)] n(2) by simp
  qed
  have sum: "(case checked_add a b of None \<Rightarrow> Inl e | Some r \<Rightarrow> require_at_least index c r) = Inr () \<longleftrightarrow>
      (\<exists>w. c = Some w \<and> unat a + unat b \<le> unat w)" for a b :: u64 and c e
  proof (cases "checked_add a b")
    case None
    then have "2 ^ 64 \<le> unat a + unat b" by (simp add: checked_add_None)
    then show ?thesis using None unat_lt2p [where 'a = 64] by (auto simp: not_le intro: less_le_trans)
  next
    case (Some r)
    then have "unat r = unat a + unat b" by (simp add: checked_add_Some)
    then show ?thesis using Some by (simp add: require_at_least_Inr)
  qed
  show ?thesis
    using rel info epoch
    by (auto simp: verify_relative_lock_def is_relative_def since_lock_ok_def sum
        split: option.splits SinceMetric.splits)
qed

lemma input_since_verify_iff:
  assumes "u256_ok L" "epoch_ok (te_epoch env)" "meta_epoch_ok m"
  shows "input_since_verify L consensus g env (index, m, inp) = Inr () \<longleftrightarrow>
    since_satisfied consensus g env m (ci_since inp)"
proof (cases "is_absolute (ci_since inp)")
  case True
  have "verify_relative_lock L consensus g env index (ci_since inp) m = Inr ()"
    using True by (simp add: verify_relative_lock_def is_relative_def)
  then show ?thesis
    using verify_absolute_lock_iff [OF assms(1,2) True, of consensus g index] True
    by (simp add: input_since_verify_def since_satisfied_def Let_def r_then_Inr)
next
  case False
  have a: "verify_absolute_lock L consensus g env index (ci_since inp) = Inr ()"
    using False by (simp add: verify_absolute_lock_def)
  show ?thesis
  proof (cases "transaction_info m")
    case None
    then show ?thesis
      using False a by (simp add: input_since_verify_def since_satisfied_def Let_def r_then_Inr
          verify_relative_lock_def is_relative_def)
  next
    case (Some info)
    then have "epoch_ok (ti_block_epoch info)" using assms(3) by (simp add: meta_epoch_ok_def)
    from verify_relative_lock_iff [OF assms(1,2) False Some this, of consensus g index] a Some False
    show ?thesis by (simp add: input_since_verify_def since_satisfied_def Let_def r_then_Inr)
  qed
qed

lemma since_verify_iff:
  assumes "u256_ok L" "epoch_ok (te_epoch env)" "\<forall>m\<in>set (resolved_inputs rtx). meta_epoch_ok m"
  shows "since_verify L consensus g env rtx = Inr () \<longleftrightarrow>
    (\<forall>i<min (length (resolved_inputs rtx)) (length (inputs (rtx_transaction rtx))).
       since_satisfied consensus g env (resolved_inputs rtx ! i) (ci_since (inputs (rtx_transaction rtx) ! i)))"
  using input_since_verify_iff [OF assms(1,2)] assms(3)
  by (simp add: since_verify_def try_each_Inr Ball_enumerate)

section \<open>DAO cells\<close>

lemma dao_script_size_verify_sound:
  assumes "dao_script_size_verify total_size consensus load rtx = Inr ()"
  shows "i < length (resolved_inputs rtx) \<Longrightarrow> i < length (outputs (rtx_transaction rtx)) \<Longrightarrow>
      dao_pair_verify total_size consensus load (i, resolved_inputs rtx ! i, outputs (rtx_transaction rtx) ! i) = Inr ()"
    and "i < length (outputs (rtx_transaction rtx)) \<Longrightarrow>
      dao_output_data_verify (c_dao_type_hash consensus) load rtx (i, outputs (rtx_transaction rtx) ! i) = Inr ()"
  using assms by (simp_all add: dao_script_size_verify_def r_then_Inr try_each_Inr Ball_enumerate)

section \<open>Properties\<close>

text \<open>C17. The context-independent verifier accepts exactly the transactions with the consensus version,
  a serialised size within the block limit, at least one input and (unless a cellbase) one output,
  no repeated cell or header dependency, data for every output, and lock hash types enabled by consensus.\<close>

theorem non_contextual_accepts:
  "non_contextual_verify tx_size consensus tx = Inr () \<longleftrightarrow>
     tx_version tx = c_tx_version consensus \<and> tx_size tx \<le> c_max_block_bytes consensus \<and>
     inputs tx \<noteq> [] \<and> (outputs tx \<noteq> [] \<or> tx_is_cellbase tx) \<and>
     distinct (cell_deps tx) \<and> distinct (header_deps tx) \<and>
     length (outputs tx) = length (outputs_data tx) \<and>
     (\<forall>out\<in>set (outputs tx). hash_type (co_lock out) \<in> {0, 1, 2, 4})"
  by (simp add: non_contextual_verify_iff well_formed_tx_def)

theorem non_contextual_accepts_witness:
  "non_contextual_verify (\<lambda>_. 300) ex_consensus (ex_tx [2] [ex_spend [9]]) = Inr ()"
  by (simp add: non_contextual_accepts ex_consensus_def ex_tx_def ex_output_def word_le_nat_alt)

text \<open>C14. A transaction that the capacity verifier accepts, other than a cellbase or a DAO withdrawal,
  creates no capacity: its outputs hold at most what its inputs hold. Every accepted output holds at
  least one CKByte for every byte of the cell and its data.\<close>

theorem capacity_no_inflation:
  assumes "capacity_verify dao_type_hash rtx = Inr ()"
    and "\<forall>out\<in>set (outputs (rtx_transaction rtx)). cell_in_memory out"
    and "\<forall>data\<in>set (outputs_data (rtx_transaction rtx)). length data < 2 ^ 64"
    and "length (outputs (rtx_transaction rtx)) = length (outputs_data (rtx_transaction rtx))"
  shows "(\<not> rtx_is_cellbase rtx \<and> \<not> valid_dao_withdraw_transaction dao_type_hash rtx \<longrightarrow>
           sum_list (map (\<lambda>out. unat (co_capacity out)) (outputs (rtx_transaction rtx)))
             \<le> sum_list (map (\<lambda>m. unat (co_capacity (cell_output m))) (resolved_inputs rtx))) \<and>
         (\<forall>i<length (outputs (rtx_transaction rtx)).
           (cell_bytes (outputs (rtx_transaction rtx) ! i) + length (outputs_data (rtx_transaction rtx) ! i)) * 100000000
             \<le> unat (co_capacity (outputs (rtx_transaction rtx) ! i)))"
proof (intro conjI impI allI)
  assume "\<not> rtx_is_cellbase rtx \<and> \<not> valid_dao_withdraw_transaction dao_type_hash rtx"
  then obtain i outs where "inputs_capacity rtx = Inr i" "outputs_capacity rtx = Inr outs" "outs \<le> i"
    using capacity_verify_sound(1) [OF assms(1)] by blast
  then show "sum_list (map (\<lambda>out. unat (co_capacity out)) (outputs (rtx_transaction rtx)))
      \<le> sum_list (map (\<lambda>m. unat (co_capacity (cell_output m))) (resolved_inputs rtx))"
    by (simp add: inputs_capacity_def outputs_capacity_def tx_outputs_capacity_def try_fold_safe_add_Inr
        cap_le_iff comp_def meta_capacity_def)
next
  fix i assume i: "i < length (outputs (rtx_transaction rtx))"
  have "output_capacity_verify (i, outputs (rtx_transaction rtx) ! i, outputs_data (rtx_transaction rtx) ! i) = Inr ()"
    using capacity_verify_sound(2) [OF assms(1), of i] i assms(4) by (simp add: outputs_with_data_def)
  then show "(cell_bytes (outputs (rtx_transaction rtx) ! i) + length (outputs_data (rtx_transaction rtx) ! i)) * 100000000
      \<le> unat (co_capacity (outputs (rtx_transaction rtx) ! i))"
    using output_capacity_verify_sound assms(2-4) i by simp
qed

definition ex_paid_tx :: TransactionView where
  "ex_paid_tx = (ex_tx [2] [ex_spend [9]])\<lparr>outputs := [ex_dao_cell]\<rparr>"

definition ex_paid_rtx :: ResolvedTransaction where
  "ex_paid_rtx = \<lparr>rtx_transaction = ex_paid_tx, resolved_cell_deps = [],
     resolved_inputs = [from_cell_output (\<lambda>d. d) ex_dao_cell []], resolved_dep_groups = []\<rparr>"

lemma ex_paid_rtx_simps:
  "rtx_transaction ex_paid_rtx = ex_paid_tx" "resolved_cell_deps ex_paid_rtx = []"
  "resolved_inputs ex_paid_rtx = [from_cell_output (\<lambda>d. d) ex_dao_cell []]"
  "outputs ex_paid_tx = [ex_dao_cell]" "outputs_data ex_paid_tx = [[]]" "inputs ex_paid_tx = [ex_spend [9]]"
  "cell_output (from_cell_output f out d) = out" "transaction_info (from_cell_output f out d) = None"
  by (simp_all add: ex_paid_rtx_def ex_paid_tx_def ex_tx_def from_cell_output_def cell_meta_default_def)

lemma ex_paid_sums:
  "inputs_capacity ex_paid_rtx = Inr (Capacity 10000000000)" "outputs_capacity ex_paid_rtx = Inr (Capacity 10000000000)"
  by (simp_all add: inputs_capacity_def outputs_capacity_def tx_outputs_capacity_def try_fold_safe_add_Inr
      ex_paid_rtx_simps meta_capacity_def ex_dao_cell_def del: try_fold.simps)

lemma ex_paid_capacity: "capacity_verify [7] ex_paid_rtx = Inr ()"
proof -
  note ex_paid_sums
  moreover have "cap_bytes 0 = Inr cap_zero" by (simp add: cap_simps)
  moreover have "is_lack_of_capacity ex_dao_cell cap_zero = Inr False"
    by (simp add: is_lack_of_capacity_def ex_dao_cell_occupied) (simp add: ex_dao_cell_def cap_simps)
  ultimately show ?thesis
    by (simp add: capacity_verify_def ex_paid_rtx_simps outputs_with_data_def output_capacity_verify_def
        cap_result_def)
qed

theorem capacity_no_inflation_witness:
  "sum_list (map (\<lambda>out. unat (co_capacity out)) (outputs (rtx_transaction ex_paid_rtx)))
     \<le> sum_list (map (\<lambda>m. unat (co_capacity (cell_output m))) (resolved_inputs ex_paid_rtx)) \<and>
   cell_bytes ex_dao_cell * 100000000 \<le> unat (co_capacity ex_dao_cell)"
proof -
  have "cell_in_memory ex_dao_cell"
    by (simp add: cell_in_memory_def cell_bytes_def script_bytes_def ex_dao_cell_def)
  moreover have "\<not> rtx_is_cellbase ex_paid_rtx" "\<not> valid_dao_withdraw_transaction [7] ex_paid_rtx"
    by (simp_all add: rtx_is_cellbase_def valid_dao_withdraw_transaction_def ex_paid_rtx_simps
        cell_uses_dao_type_script_def ex_dao_cell_def)
  ultimately show ?thesis
    using capacity_no_inflation [OF ex_paid_capacity] by (simp add: ex_paid_rtx_simps)
qed

text \<open>C16. The maturity verifier accepts exactly the transactions none of whose inputs and cell
  dependencies is a cellbase output, outside the genesis block, younger than the maturity period,
  with epochs compared as rational numbers; the arithmetic never overflows or panics for epochs of a chain.\<close>

theorem maturity_accepts:
  assumes "u256_ok L" and "epoch_ok epoch" and "epoch_ok maturity"
    and "\<forall>m\<in>set (resolved_inputs rtx) \<union> set (resolved_cell_deps rtx). meta_epoch_ok m"
  shows "maturity_verify L epoch maturity rtx = Inr () \<longleftrightarrow>
    (\<forall>m\<in>set (resolved_inputs rtx) \<union> set (resolved_cell_deps rtx). \<forall>info.
       transaction_info m = Some info \<and> ti_block_number info > 0 \<and> info_is_cellbase info \<longrightarrow>
       enf_val (ti_block_epoch info) + enf_val maturity \<le> enf_val epoch)"
  using maturity_verify_iff [OF assms] by (simp add: cellbase_mature_def)

theorem maturity_accepts_witness:
  "maturity_verify u256_words (enf_new 4 0 1) (enf_new 4 0 1) ex_paid_rtx = Inr ()"
proof -
  have "enf_length (enf_new 4 0 1) = 1" by (rule enf_new_fields(3)) simp_all
  then have "epoch_ok (enf_new 4 0 1)" by (simp add: epoch_ok_def)
  then show ?thesis
    using maturity_accepts [OF u256_words_ok, of "enf_new 4 0 1" "enf_new 4 0 1" ex_paid_rtx]
    by (simp add: ex_paid_rtx_simps meta_epoch_ok_def)
qed

text \<open>C15. The since verifier accepts a transaction exactly when the lock of every input is satisfied:
  an absolute lock bounds the block number, epoch or median time of the commitment from below by its
  value, a relative lock by the position of the input's block plus its value, all without wrap-around.\<close>

theorem since_accepts:
  assumes "u256_ok L" and "epoch_ok (te_epoch env)" and "\<forall>m\<in>set (resolved_inputs rtx). meta_epoch_ok m"
    and "length (resolved_inputs rtx) = length (inputs (rtx_transaction rtx))"
  shows "since_verify L consensus g env rtx = Inr () \<longleftrightarrow>
    (\<forall>i<length (inputs (rtx_transaction rtx)).
       since_satisfied consensus g env (resolved_inputs rtx ! i) (ci_since (inputs (rtx_transaction rtx) ! i)))"
  using since_verify_iff [OF assms(1-3)] assms(4) by simp

definition ex_env :: TxVerifyEnv where
  "ex_env = new_commit ex_header\<lparr>te_epoch := enf_new 4 0 1\<rparr>"

theorem since_accepts_witness: "since_verify u256_words ex_consensus (\<lambda>_. None) ex_env ex_paid_rtx = Inr ()"
proof -
  have "enf_length (enf_new 4 0 1) = 1" by (rule enf_new_fields(3)) simp_all
  then have "epoch_ok (te_epoch ex_env)" by (simp add: epoch_ok_def ex_env_def)
  then show ?thesis
    using since_accepts [OF u256_words_ok, of ex_env ex_paid_rtx ex_consensus "\<lambda>_. None"]
    by (simp add: ex_paid_rtx_simps meta_epoch_ok_def since_satisfied_def ex_spend_def)
qed






text \<open>C20. In a transaction that passes the DAO size rule, a deposit cell and the DAO cell withdrawing it
  at the same index have locks of the same size (for deposits after the starting block), and every
  DAO output with data other than zeros stands opposite a deposit input.\<close>

theorem dao_size_rule:
  assumes "dao_script_size_verify total_size consensus load rtx = Inr ()"
    and "i < length (outputs (rtx_transaction rtx))"
    and "cell_uses_dao_type_script (outputs (rtx_transaction rtx) ! i) (c_dao_type_hash consensus)"
  shows "(i < length (resolved_inputs rtx) \<and>
          cell_uses_dao_type_script (cell_output (resolved_inputs rtx ! i)) (c_dao_type_hash consensus) \<and>
          (\<exists>d. load (resolved_inputs rtx ! i) = Some d \<and> list_all (\<lambda>b. b = 0) d) \<and>
          (\<forall>info. transaction_info (resolved_inputs rtx ! i) = Some info \<longrightarrow>
             c_starting_block_limiting_dao_withdrawing_lock consensus \<le> ti_block_number info) \<longrightarrow>
          total_size (co_lock (cell_output (resolved_inputs rtx ! i))) = total_size (co_lock (outputs (rtx_transaction rtx) ! i))) \<and>
         (\<forall>d. get_nth (outputs_data (rtx_transaction rtx)) i = Some d \<and> \<not> list_all (\<lambda>b. b = 0) d \<longrightarrow>
            same_index_input_is_dao_deposit (c_dao_type_hash consensus) load rtx i)"
proof (intro conjI impI allI)
  assume a: "i < length (resolved_inputs rtx) \<and>
          cell_uses_dao_type_script (cell_output (resolved_inputs rtx ! i)) (c_dao_type_hash consensus) \<and>
          (\<exists>d. load (resolved_inputs rtx ! i) = Some d \<and> list_all (\<lambda>b. b = 0) d) \<and>
          (\<forall>info. transaction_info (resolved_inputs rtx ! i) = Some info \<longrightarrow>
             c_starting_block_limiting_dao_withdrawing_lock consensus \<le> ti_block_number info)"
  then obtain d where d: "load (resolved_inputs rtx ! i) = Some d" "\<not> list_ex (\<lambda>b. b \<noteq> 0) d"
    by (auto simp: list_all_iff list_ex_iff)
  then show "total_size (co_lock (cell_output (resolved_inputs rtx ! i))) = total_size (co_lock (outputs (rtx_transaction rtx) ! i))"
    using dao_script_size_verify_sound(1) [OF assms(1), of i] a assms(2,3)
    by (auto simp: dao_pair_verify_def not_less split: if_splits option.splits)
next
  fix d assume "get_nth (outputs_data (rtx_transaction rtx)) i = Some d \<and> \<not> list_all (\<lambda>b. b = 0) d"
  then show "same_index_input_is_dao_deposit (c_dao_type_hash consensus) load rtx i"
    using dao_script_size_verify_sound(2) [OF assms(1), of i] assms(2,3)
    by (auto simp: dao_output_data_verify_def split: if_splits)
qed

definition ex_dao_out :: CellOutput where
  "ex_dao_out = ex_dao_cell\<lparr>co_type := Some \<lparr>code_hash = [7], hash_type = 1, args = []\<rparr>\<rparr>"

definition ex_dao_rtx :: ResolvedTransaction where
  "ex_dao_rtx = \<lparr>rtx_transaction = (ex_tx [2] [ex_spend [9]])\<lparr>outputs := [ex_dao_out]\<rparr>, resolved_cell_deps = [],
     resolved_inputs = [from_cell_output (\<lambda>d. d) ex_dao_out (replicate 8 0)], resolved_dep_groups = []\<rparr>"

theorem dao_size_rule_witness:
  "length (args (co_lock (cell_output (resolved_inputs ex_dao_rtx ! 0)))) =
   length (args (co_lock (outputs (rtx_transaction ex_dao_rtx) ! 0)))"
proof -
  have s: "resolved_inputs ex_dao_rtx = [from_cell_output (\<lambda>d. d) ex_dao_out (replicate 8 0)]"
    "outputs (rtx_transaction ex_dao_rtx) = [ex_dao_out]" "outputs_data (rtx_transaction ex_dao_rtx) = [[]]"
    by (simp_all add: ex_dao_rtx_def ex_tx_def)
  have u: "cell_uses_dao_type_script ex_dao_out (c_dao_type_hash ex_consensus)"
    by (simp add: cell_uses_dao_type_script_def ex_dao_out_def is_dao_type_script_def script_hash_type_value_def ex_consensus_def)
  have "dao_script_size_verify (\<lambda>s. length (args s)) ex_consensus mem_cell_data ex_dao_rtx = Inr ()"
    by (simp add: dao_script_size_verify_def s u dao_pair_verify_def dao_output_data_verify_def
        ex_paid_rtx_simps get_nth_def split: option.splits)
  from dao_size_rule [OF this, of 0] show ?thesis
    by (simp add: s u ex_paid_rtx_simps) 
qed

end
