(* ===== verification/Difficulty.thy ===== *)
theory Difficulty
  imports Rational "HOL-Library.Log_Nat"
begin

unbundle bit_operations_syntax

text \<open>
  The compact representation of proof-of-work targets: \<open>util/types/src/utilities/difficulty.rs\<close>. The bit
  operations of the 256-bit integers, and the division of \<open>2 ^ 256\<close> that the code does in 512 bits,
  come from the \<open>numext-fixed-uint\<close> crate and are the argument \<open>B\<close>, with \<open>u256_bits_ok B\<close> stating what they compute.

  The lemmas show that a target survives the round trip through the compact form up to the bytes
  after the three most significant ones, that the compact form of the result is the same, and that the
  decoded difficulty never is out of range.
\<close>

record u256_bits =
  u_shl :: "u256 \<Rightarrow> nat \<Rightarrow> u256"
  u_shr :: "u256 \<Rightarrow> nat \<Rightarrow> u256"
  u_leading_zeros :: "u256 \<Rightarrow> nat"
  u_low64 :: "u256 \<Rightarrow> u64"
  u_hspace_div :: "u256 \<Rightarrow> u256" \<comment> \<open>\<open>HSPACE / x\<close> in 512 bits, converted back\<close>

definition u256_bits_ok :: "u256_bits \<Rightarrow> bool" where
  "u256_bits_ok B \<longleftrightarrow>
     (\<forall>a n. n < 256 \<longrightarrow> unat (u_shl B a n) = (unat a * 2 ^ n) mod 2 ^ 256) \<and>
     (\<forall>a n. n < 256 \<longrightarrow> unat (u_shr B a n) = unat a div 2 ^ n) \<and>
     (\<forall>a. u_leading_zeros B a \<le> 256 \<and> unat a < 2 ^ (256 - u_leading_zeros B a) \<and>
        (unat a \<noteq> 0 \<longrightarrow> 2 ^ (255 - u_leading_zeros B a) \<le> unat a \<and> u_leading_zeros B a < 256) \<and>
        (unat a = 0 \<longrightarrow> u_leading_zeros B a = 256)) \<and>
     (\<forall>a. unat (u_low64 B a) = unat a mod 2 ^ 64) \<and>
     (\<forall>a. unat a \<noteq> 0 \<longrightarrow> unat (u_hspace_div B a) = (2 ^ 256 div unat a) mod 2 ^ 256)"

definition DIFF_TWO :: u32 where "DIFF_TWO = 0x20800000"

definition target_to_difficulty :: "u256_bits \<Rightarrow> u256 \<Rightarrow> u256 option" where
  "target_to_difficulty B target =
     (if target = 1 then Some (- 1) else if target = 0 then None else Some (u_hspace_div B target))"

definition difficulty_to_target :: "u256_bits \<Rightarrow> u256 \<Rightarrow> u256 option" where
  "difficulty_to_target B difficulty =
     (if difficulty = 1 then Some (- 1) else if difficulty = 0 then None else Some (u_hspace_div B difficulty))"

text \<open>\<open>exponent\<close> is the number of bytes of the target; its shifts stay below 256 and 64 bits.\<close>

definition target_exponent :: "u256_bits \<Rightarrow> u256 \<Rightarrow> nat" where
  "target_exponent B target = (256 - u_leading_zeros B target + 7) div 8"

definition target_to_compact :: "u256_bits \<Rightarrow> u256 \<Rightarrow> u32" where
  "target_to_compact B target =
     (let exponent = target_exponent B target;
          c = (if exponent \<le> 3 then push_bit (8 * (3 - exponent)) (u_low64 B target)
                     else u_low64 B (u_shr B target (8 * (exponent - 3))))
      in ucast (c OR push_bit 24 (word_of_nat exponent)))"

definition compact_to_target :: "u256_bits \<Rightarrow> u32 \<Rightarrow> u256 \<times> bool" where
  "compact_to_target B c =
     (let exponent = unat (drop_bit 24 c);
          mantissa = (ucast (c AND 0x00ffffff) :: u256);
          (mantissa, ret) = (if exponent \<le> 3
             then (let m = u_shr B mantissa (8 * (3 - exponent)) in (m, m))
             else (mantissa, u_shl B mantissa (8 * (exponent - 3))));
          overflow = mantissa \<noteq> 0 \<and> exponent > 32
      in (ret, overflow))"

definition compact_to_difficulty :: "u256_bits \<Rightarrow> u32 \<Rightarrow> u256 option" where
  "compact_to_difficulty B c =
     (let (target, overflow) = compact_to_target B c
      in if target = 0 \<or> overflow then Some 0 else target_to_difficulty B target)"

definition difficulty_to_compact :: "u256_bits \<Rightarrow> u256 \<Rightarrow> u32 option" where
  "difficulty_to_compact B difficulty = map_option (target_to_compact B) (difficulty_to_target B difficulty)"

section \<open>Lemmas\<close>

lemma u256_bits_okD:
  assumes "u256_bits_ok B"
  shows "n < 256 \<Longrightarrow> unat (u_shl B a n) = (unat a * 2 ^ n) mod 2 ^ 256"
    and "n < 256 \<Longrightarrow> unat (u_shr B a n) = unat a div 2 ^ n"
    and "u_leading_zeros B a \<le> 256" and "unat a < 2 ^ (256 - u_leading_zeros B a)"
    and "unat a \<noteq> 0 \<Longrightarrow> 2 ^ (255 - u_leading_zeros B a) \<le> unat a" and "unat a \<noteq> 0 \<Longrightarrow> u_leading_zeros B a < 256"
    and "unat a = 0 \<Longrightarrow> u_leading_zeros B a = 256"
    and "unat (u_low64 B a) = unat a mod 2 ^ 64"
    and "unat a \<noteq> 0 \<Longrightarrow> unat (u_hspace_div B a) = (2 ^ 256 div unat a) mod 2 ^ 256"
  using assms unfolding u256_bits_ok_def by blast+

lemma target_exponent_bounds:
  assumes "u256_bits_ok B"
  shows "target_exponent B t \<le> 32" "unat t < 256 ^ target_exponent B t"
    and "unat t \<noteq> 0 \<Longrightarrow> 256 ^ (target_exponent B t - 1) \<le> unat t \<and> 1 \<le> target_exponent B t"
proof -
  let ?bits = "256 - u_leading_zeros B t" and ?e = "target_exponent B t"
  have e: "?bits \<le> 8 * ?e" "8 * ?e \<le> ?bits + 7" by (simp_all add: target_exponent_def)
  then show "?e \<le> 32" by linarith
  have pow: "256 ^ n = (2::nat) ^ (8 * n)" for n by (simp add: power_mult)
  have "unat t < 2 ^ ?bits" using u256_bits_okD(4) [OF assms] .
  also have "\<dots> \<le> 2 ^ (8 * ?e)" using e(1) by (rule power_increasing) simp
  finally show "unat t < 256 ^ ?e" by (simp only: pow)
  assume t: "unat t \<noteq> 0"
  have "u_leading_zeros B t < 256" using u256_bits_okD(6) [OF assms t] .
  then have "8 * (?e - 1) \<le> 255 - u_leading_zeros B t" "1 \<le> ?e" using e by linarith+
  then have "256 ^ (?e - 1) \<le> (2::nat) ^ (255 - u_leading_zeros B t)" unfolding pow by (intro power_increasing) simp_all
  then show "256 ^ (?e - 1) \<le> unat t \<and> 1 \<le> ?e"
    using u256_bits_okD(5) [OF assms t] \<open>1 \<le> ?e\<close> by linarith
qed

lemma or_shifted:
  fixes m e :: nat
  assumes "m < 2 ^ 24"
  shows "m OR push_bit 24 e = m + e * 2 ^ 24"
proof -
  have "take_bit 24 m = m" using assms by (simp add: take_bit_nat_eq_self)
  then have "24 \<le> n \<Longrightarrow> \<not> bit m n" for n by (metis bit_take_bit_iff not_le)
  then have "m AND push_bit 24 e = 0" by (intro bit_eqI) (auto simp: bit_and_iff bit_push_bit_iff)
  then have "m + push_bit 24 e = m OR push_bit 24 e" by (rule disjunctive_add_eq_or)
  then show ?thesis by (simp add: push_bit_nat_def)
qed

text \<open>The mantissa: the three most significant bytes of the target.\<close>

definition target_mantissa :: "u256_bits \<Rightarrow> u256 \<Rightarrow> nat" where
  "target_mantissa B t =
     (let e = target_exponent B t in if e \<le> 3 then unat t * 256 ^ (3 - e) else unat t div 256 ^ (e - 3))"

lemma target_mantissa_bound:
  assumes "u256_bits_ok B"
  shows "target_mantissa B t < 2 ^ 24"
proof (cases "target_exponent B t \<le> 3")
  case True
  have "unat t * 256 ^ (3 - target_exponent B t) < 256 ^ target_exponent B t * 256 ^ (3 - target_exponent B t)"
    using target_exponent_bounds(2) [OF assms, of t] by simp
  also have "\<dots> = 256 ^ 3" using True by (simp flip: power_add)
  finally show ?thesis using True by (simp add: target_mantissa_def)
next
  case False
  have "256 ^ target_exponent B t = 256 ^ (target_exponent B t - 3) * (2::nat) ^ 24"
    using False power_add [of "256::nat" "target_exponent B t - 3" 3] by simp
  then have "unat t < 256 ^ (target_exponent B t - 3) * 2 ^ 24"
    using target_exponent_bounds(2) [OF assms, of t] by simp
  then have "unat t div 256 ^ (target_exponent B t - 3) < 2 ^ 24"
    by (simp add: less_mult_imp_div_less mult.commute)
  then show ?thesis using False by (simp add: target_mantissa_def)
qed

lemma unat_target_to_compact:
  assumes "u256_bits_ok B"
  shows "unat (target_to_compact B t) = target_exponent B t * 2 ^ 24 + target_mantissa B t"
proof -
  let ?e = "target_exponent B t" and ?m = "target_mantissa B t"
  let ?c = "if ?e \<le> 3 then push_bit (8 * (3 - ?e)) (u_low64 B t) else u_low64 B (u_shr B t (8 * (?e - 3)))"
  have pow: "(2::nat) ^ (8 * n) = 256 ^ n" for n by (simp add: power_mult)
  have e: "?e \<le> 32" using target_exponent_bounds(1) [OF assms] .
  have m: "?m < 2 ^ 24" using target_mantissa_bound [OF assms] .
  have c: "unat ?c = ?m"
  proof (cases "?e \<le> 3")
    case True
    have "unat t < 256 ^ 3"
      using target_exponent_bounds(2) [OF assms, of t] power_increasing [OF True, of "256::nat"] by simp
    then show ?thesis
      using True m u256_bits_okD(8) [OF assms, of t]
      by (simp add: target_mantissa_def unsigned_push_bit_eq push_bit_nat_def take_bit_nat_def pow mult.commute)
  next
    case False
    then have "8 * (?e - 3) < 256" using e by simp
    from u256_bits_okD(2) [OF assms this] False m show ?thesis
      using u256_bits_okD(8) [OF assms, of "u_shr B t (8 * (?e - 3))"] by (simp add: target_mantissa_def pow)
  qed
  have "unat (push_bit 24 (word_of_nat ?e) :: u64) = push_bit 24 ?e"
    using e by (simp add: unsigned_push_bit_eq unat_of_nat push_bit_nat_def take_bit_nat_def)
  then have "unat (?c OR push_bit 24 (word_of_nat ?e)) = ?m + ?e * 2 ^ 24"
    using m by (simp only: unsigned_or_eq c or_shifted)
  moreover have "?m + ?e * 2 ^ 24 < 2 ^ 32" using m e by simp
  ultimately show ?thesis
    by (simp add: target_to_compact_def Let_def unsigned_ucast_eq take_bit_nat_eq_self)
qed

lemma compact_parts:
  fixes c :: u32
  assumes "unat c = e * 2 ^ 24 + m" "m < 2 ^ 24"
  shows "unat (drop_bit 24 c) = e" "unat (ucast (c AND 0x00ffffff) :: u256) = m"
proof -
  show "unat (drop_bit 24 c) = e"
    using assms unat_lt2p [of c] by (simp add: unsigned_drop_bit_eq drop_bit_nat_def take_bit_nat_def)
  have "c AND 0x00ffffff = take_bit 24 c"
    using take_bit_eq_mask [of 24 c] by (simp add: mask_eq_exp_minus_1)
  then show "unat (ucast (c AND 0x00ffffff) :: u256) = m"
    using assms unat_lt2p [of c] by (simp add: unsigned_ucast_eq unsigned_take_bit_eq take_bit_nat_def)
qed

lemma compact_to_target_parts:
  assumes "u256_bits_ok B" "unat c = e * 2 ^ 24 + m" "m < 2 ^ 24" "e \<le> 32"
  shows "unat (fst (compact_to_target B c)) = (if e \<le> 3 then m div 256 ^ (3 - e) else m * 256 ^ (e - 3))"
    and "\<not> snd (compact_to_target B c)"
proof -
  note parts = compact_parts [OF assms(2,3)]
  have pow: "(2::nat) ^ (8 * n) = 256 ^ n" for n by (simp add: power_mult)
  show "\<not> snd (compact_to_target B c)"
    using assms(4) by (simp add: compact_to_target_def Let_def parts split_def)
  show "unat (fst (compact_to_target B c)) = (if e \<le> 3 then m div 256 ^ (3 - e) else m * 256 ^ (e - 3))"
  proof (cases "e \<le> 3")
    case True
    then have "8 * (3 - e) < 256" by simp
    from u256_bits_okD(2) [OF assms(1) this] True show ?thesis
      by (simp add: compact_to_target_def Let_def parts pow)
  next
    case False
    then have n: "8 * (e - 3) < 256" using assms(4) by simp
    have "m * 256 ^ (e - 3) < 2 ^ 24 * 256 ^ (e - 3)" using assms(3) by simp
    also have "\<dots> = 256 ^ e" using False power_add [of "256::nat" 3 "e - 3"] by simp
    also have "\<dots> \<le> 256 ^ 32" using assms(4) by (intro power_increasing) simp_all
    finally have "m * 256 ^ (e - 3) < 2 ^ 256" by simp
    with u256_bits_okD(1) [OF assms(1) n] False show ?thesis
      by (simp add: compact_to_target_def Let_def parts pow)
  qed
qed

text \<open>What the compact form of a target decodes to.\<close>

lemma compact_of_target:
  assumes "u256_bits_ok B"
  shows "unat (fst (compact_to_target B (target_to_compact B t))) =
      (if target_exponent B t \<le> 3 then unat t
       else unat t div 256 ^ (target_exponent B t - 3) * 256 ^ (target_exponent B t - 3))"
    and "\<not> snd (compact_to_target B (target_to_compact B t))"
  using compact_to_target_parts [OF assms unat_target_to_compact [OF assms] target_mantissa_bound [OF assms]
      target_exponent_bounds(1) [OF assms], of t]
  by (auto simp: target_mantissa_def Let_def)

text \<open>The number of bytes determines the exponent.\<close>

lemma target_exponent_unique:
  assumes "u256_bits_ok B" "256 ^ (e - 1) \<le> unat t" "unat t < 256 ^ e" "1 \<le> e"
  shows "target_exponent B t = e"
proof -
  have "unat t \<noteq> 0" using assms(2) by (metis not_one_le_zero one_le_power le_zero_eq one_le_numeral)
  note b = target_exponent_bounds(2) [OF assms(1), of t] target_exponent_bounds(3) [OF assms(1) this]
  have "256 ^ (e - 1) < (256::nat) ^ target_exponent B t" using assms(2) b(1) by (rule le_less_trans)
  then have "e - 1 < target_exponent B t" by (rule power_less_imp_less_exp [rotated]) simp
  moreover have "256 ^ (target_exponent B t - 1) < (256::nat) ^ e" using b(2) assms(3) by linarith
  then have "target_exponent B t - 1 < e" by (rule power_less_imp_less_exp [rotated]) simp
  ultimately show ?thesis using assms(4) b(2) by linarith
qed

lemma truncated_target:
  assumes "u256_bits_ok B" "\<not> target_exponent B t \<le> 3" "unat t' = unat t div 256 ^ (target_exponent B t - 3) * 256 ^ (target_exponent B t - 3)"
  shows "unat t' \<le> unat t" "(unat t - unat t') * 2 ^ 16 \<le> unat t" "target_exponent B t' = target_exponent B t"
proof -
  let ?e = "target_exponent B t" and ?k = "256 ^ (target_exponent B t - 3) :: nat"
  have split: "unat t = unat t' + unat t mod ?k" unfolding assms(3) by (simp only: div_mult_mod_eq)
  then show le: "unat t' \<le> unat t" by linarith
  have "unat t \<noteq> 0"
  proof
    assume "unat t = 0"
    then have "u_leading_zeros B t = 256" using u256_bits_okD(7) [OF assms(1)] by blast
    then show False using assms(2) by (simp add: target_exponent_def)
  qed
  then have t: "256 ^ (?e - 1) \<le> unat t" using target_exponent_bounds(3) [OF assms(1)] by blast
  have "?e - 1 = ?e - 3 + 2" using assms(2) by simp
  then have "256 ^ (?e - 1) = ?k * 256 ^ 2" by (simp only: power_add)
  then have k: "256 ^ (?e - 1) = ?k * 2 ^ 16" by simp
  have "unat t mod ?k < ?k" by (rule mod_less_divisor) simp
  then have "unat t - unat t' < ?k" using split by linarith
  then have "(unat t - unat t') * 2 ^ 16 \<le> ?k * 2 ^ 16" by (intro mult_right_mono) simp_all
  then show "(unat t - unat t') * 2 ^ 16 \<le> unat t" using t k by linarith
  have "2 ^ 16 \<le> unat t div ?k" using t k by (simp add: less_eq_div_iff_mult_less_eq mult.commute)
  then have "?k * 2 ^ 16 \<le> unat t'" unfolding assms(3) by (simp add: mult.commute)
  then have "256 ^ (?e - 1) \<le> unat t'" using k by linarith
  moreover have "unat t' < 256 ^ ?e" using le target_exponent_bounds(2) [OF assms(1), of t] by linarith
  ultimately show "target_exponent B t' = ?e"
    using assms(2) by (intro target_exponent_unique [OF assms(1)]) simp_all
qed

section \<open>Properties\<close>

text \<open>C31. Encoding a target in the compact form and decoding it never overflows and loses at most one part
  in 65536 of it, rounding down, and encoding the decoded target gives the same compact form.\<close>

theorem compact_round_trip:
  assumes "u256_bits_ok B"
  shows "\<exists>t'. compact_to_target B (target_to_compact B t) = (t', False) \<and> unat t' \<le> unat t \<and>
    (unat t - unat t') * 2 ^ 16 \<le> unat t \<and> target_to_compact B t' = target_to_compact B t"
proof -
  define t' where "t' = fst (compact_to_target B (target_to_compact B t))"
  note c = compact_of_target [OF assms, of t, folded t'_def]
  have eq: "compact_to_target B (target_to_compact B t) = (t', False)"
    using c(2) by (simp add: t'_def prod_eq_iff)
  show ?thesis
  proof (cases "target_exponent B t \<le> 3")
    case True
    then have "t' = t" using c(1) by (simp add: word_unat_eq_iff)
    then show ?thesis using eq by auto
  next
    case False
    then have t': "unat t' = unat t div 256 ^ (target_exponent B t - 3) * 256 ^ (target_exponent B t - 3)" using c(1) by simp
    note tr = truncated_target [OF assms False t']
    have "target_mantissa B t' = target_mantissa B t"
      using tr(3) False by (simp add: target_mantissa_def t')
    then have "target_to_compact B t' = target_to_compact B t"
      using unat_target_to_compact [OF assms] tr(3) by (simp add: word_unat_eq_iff)
    then show ?thesis using eq tr by auto
  qed
qed

definition u256_bit_words :: u256_bits where
  "u256_bit_words = \<lparr>u_shl = (\<lambda>a n. push_bit n a), u_shr = (\<lambda>a n. drop_bit n a),
     u_leading_zeros = (\<lambda>a. 256 - floorlog 2 (unat a)), u_low64 = ucast,
     u_hspace_div = (\<lambda>a. word_of_nat (2 ^ 256 div unat a))\<rparr>"

lemma u256_bit_words_ok: "u256_bits_ok u256_bit_words"
proof -
  have bounds: "0 < n \<Longrightarrow> 2 ^ (floorlog 2 n - 1) \<le> n \<and> n < 2 ^ floorlog 2 n" for n
    using floorlog_bounds [of n 2] by simp
  have le: "floorlog 2 (unat a) \<le> 256" for a :: u256
    using unat_lt2p [of a] by (intro floorlog_leI) simp_all
  have pos: "0 < n \<Longrightarrow> 0 < floorlog 2 n" for n by (simp add: floorlog_def)
  show ?thesis
    unfolding u256_bits_ok_def
  proof (intro conjI allI impI)
    fix a :: u256 and n
    show "unat (u_shr u256_bit_words a n) = unat a div 2 ^ n"
      using unat_lt2p [of a] by (simp add: u256_bit_words_def unsigned_drop_bit_eq drop_bit_nat_def take_bit_nat_def)
  next
    fix a :: u256
    show "unat a < 2 ^ (256 - u_leading_zeros u256_bit_words a)"
      using bounds [of "unat a"] le [of a] by (cases "unat a = 0") (simp_all add: u256_bit_words_def)
    assume "unat a \<noteq> 0"
    then show "2 ^ (255 - u_leading_zeros u256_bit_words a) \<le> unat a" "u_leading_zeros u256_bit_words a < 256"
      using bounds [of "unat a"] le [of a] pos [of "unat a"] by (simp_all add: u256_bit_words_def)
  qed (auto simp: u256_bit_words_def unsigned_push_bit_eq push_bit_nat_def take_bit_nat_def unsigned_ucast_eq unat_of_nat floorlog_def)
qed

theorem compact_round_trip_witness:
  "\<exists>t'. compact_to_target u256_bit_words (target_to_compact u256_bit_words 0x123456789a) = (t', False) \<and>
     unat t' \<le> unat (0x123456789a :: u256)"
  using compact_round_trip [OF u256_bit_words_ok, of "0x123456789a"] by blast

end
