(* ===== verification/Chain_Root.thy ===== *)
theory Chain_Root
  imports Chain_Types Difficulty
begin

text \<open>
  The header digests that the Merkle mountain range over the chain commits to
  (\<open>util/types/src/utilities/merkle_mountain_range.rs\<close>): the digest of a header, the check of a digest,
  the merge of two adjacent digests, and the check of a header against the extension that commits to the
  digest of the chain below it. The hash function and the molecule encoding of a digest are parameters.

  The lemmas show that merging succeeds only on consecutive headers: whatever the shape of the
  tree, the root describes exactly the blocks below it and carries the sum of their difficulties.
\<close>

section \<open>Digests\<close>

record HeaderDigest =
  hd_children_hash :: byte32
  hd_total_difficulty :: u256
  hd_start_number :: u64
  hd_end_number :: u64
  hd_start_epoch :: EpochNumberWithFraction
  hd_end_epoch :: EpochNumberWithFraction
  hd_start_timestamp :: u64
  hd_end_timestamp :: u64
  hd_start_compact_target :: u32
  hd_end_compact_target :: u32

definition header_digest :: "u256_bits \<Rightarrow> HeaderView \<Rightarrow> HeaderDigest option" where
  "header_digest B self =
     map_option (\<lambda>difficulty.
         \<lparr>hd_children_hash = h_hash self, hd_total_difficulty = difficulty,
          hd_start_number = h_number self, hd_end_number = h_number self,
          hd_start_epoch = h_epoch self, hd_end_epoch = h_epoch self,
          hd_start_timestamp = h_timestamp self, hd_end_timestamp = h_timestamp self,
          hd_start_compact_target = h_compact_target self, hd_end_compact_target = h_compact_target self\<rparr>)
       (compact_to_difficulty B (h_compact_target self))"

datatype DigestError = StartNumberBigger | StartEpochBigger | TargetsDiffer | TotalDifficultyWrong

text \<open>\<open>HeaderDigest::verify\<close>; \<open>None\<close> is the overflow of \<open>end_number - start_number + 1\<close>.\<close>

definition digest_verify :: "u256_lib \<Rightarrow> u256_bits \<Rightarrow> HeaderDigest \<Rightarrow> (DigestError + unit) option" where
  "digest_verify L B self =
     (let start_epoch = hd_start_epoch self; end_epoch = hd_end_epoch self
      in if hd_start_number self > hd_end_number self then Some (Inl StartNumberBigger)
         else if start_epoch \<noteq> end_epoch \<and>
                (enf_number start_epoch > enf_number end_epoch \<or>
                 enf_number start_epoch = enf_number end_epoch \<and> enf_index start_epoch > enf_index end_epoch)
         then Some (Inl StartEpochBigger)
         else if enf_number start_epoch = enf_number end_epoch then
           (if hd_start_compact_target self \<noteq> hd_end_compact_target self then Some (Inl TargetsDiffer)
            else (case checked_add (hd_end_number self - hd_start_number self) 1 of
                None \<Rightarrow> None
              | Some blocks_count \<Rightarrow>
                  (case compact_to_difficulty B (hd_start_compact_target self) of
                    None \<Rightarrow> None
                  | Some block_difficulty \<Rightarrow>
                      if hd_total_difficulty self \<noteq> u_mul L block_difficulty (ucast blocks_count)
                      then Some (Inl TotalDifficultyWrong) else Some (Inr ()))))
         else Some (Inr ()))"

datatype MergeError = BlocksNotContinuous | EpochsNotContinuous

text \<open>\<open>merge_hash\<close> is the hash of the concatenation of the hashes of both digests; \<open>None\<close> is the overflow
  of \<open>lhs_end_number + 1\<close>.\<close>

definition merge_digest ::
    "u256_lib \<Rightarrow> (HeaderDigest \<Rightarrow> HeaderDigest \<Rightarrow> byte32) \<Rightarrow> HeaderDigest \<Rightarrow> HeaderDigest \<Rightarrow> (MergeError + HeaderDigest) option" where
  "merge_digest L merge_hash lhs rhs =
     (case checked_add (hd_end_number lhs) 1 of
       None \<Rightarrow> None
     | Some next_number \<Rightarrow>
         if next_number \<noteq> hd_start_number rhs then Some (Inl BlocksNotContinuous)
         else if \<not> is_successor_of (hd_start_epoch rhs) (hd_end_epoch lhs) \<and> \<not> enf_is_genesis (hd_end_epoch lhs)
         then Some (Inl EpochsNotContinuous)
         else Some (Inr
           \<lparr>hd_children_hash = merge_hash lhs rhs,
            hd_total_difficulty = u_add L (hd_total_difficulty lhs) (hd_total_difficulty rhs),
            hd_start_number = hd_start_number lhs, hd_end_number = hd_end_number rhs,
            hd_start_epoch = hd_start_epoch lhs, hd_end_epoch = hd_end_epoch rhs,
            hd_start_timestamp = hd_start_timestamp lhs, hd_end_timestamp = hd_end_timestamp rhs,
            hd_start_compact_target = hd_start_compact_target lhs,
            hd_end_compact_target = hd_end_compact_target rhs\<rparr>))"

definition merge_peaks ::
    "u256_lib \<Rightarrow> (HeaderDigest \<Rightarrow> HeaderDigest \<Rightarrow> byte32) \<Rightarrow> HeaderDigest \<Rightarrow> HeaderDigest \<Rightarrow> (MergeError + HeaderDigest) option" where
  "merge_peaks L merge_hash lhs rhs = merge_digest L merge_hash rhs lhs"

text \<open>The operations of the mountain range that the node calls; they read stored digests by position.
  \<open>None\<close> is an error of the range, \<open>mmr_commit\<close> gives the appends it makes to the store.\<close>

record 'm mmr_lib =
  leaf_index_to_mmr_size :: "u64 \<Rightarrow> u64"
  mmr_new :: "u64 \<Rightarrow> 'm"
  mmr_push :: "(u64 \<rightharpoonup> HeaderDigest) \<Rightarrow> 'm \<Rightarrow> HeaderDigest \<Rightarrow> 'm option"
  mmr_get_root :: "(u64 \<rightharpoonup> HeaderDigest) \<Rightarrow> 'm \<Rightarrow> HeaderDigest option"
  mmr_commit :: "'m \<Rightarrow> (u64 \<times> HeaderDigest list) list option"

section \<open>Headers that commit to the chain below them\<close>

text \<open>\<open>ExtraHashView\<close>: the extra hash is the uncles hash, hashed with the extension hash when there is one.\<close>

definition extra_hash :: "(u8 list \<Rightarrow> byte32) \<Rightarrow> byte32 \<Rightarrow> byte32 option \<Rightarrow> byte32" where
  "extra_hash blake2b uncles_hash extension_hash_opt =
     (case extension_hash_opt of None \<Rightarrow> uncles_hash | Some extension_hash \<Rightarrow> blake2b (uncles_hash @ extension_hash))"

record VerifiableHeader =
  vh_header :: HeaderView
  vh_uncles_hash :: byte32
  vh_extension :: "u8 list option"
  vh_parent_chain_root :: HeaderDigest

definition default_digest :: HeaderDigest where
  "default_digest = \<lparr>hd_children_hash = replicate 32 0, hd_total_difficulty = 0, hd_start_number = 0, hd_end_number = 0,
     hd_start_epoch = EpochNumberWithFraction 0, hd_end_epoch = EpochNumberWithFraction 0, hd_start_timestamp = 0,
     hd_end_timestamp = 0, hd_start_compact_target = 0, hd_end_compact_target = 0\<rparr>"

definition verifiable_is_valid ::
    "(u8 list \<Rightarrow> byte32) \<Rightarrow> (HeaderDigest \<Rightarrow> byte32) \<Rightarrow> u64 \<Rightarrow> VerifiableHeader \<Rightarrow> bool" where
  "verifiable_is_valid blake2b calc_mmr_hash mmr_activated_epoch_number self =
     (let mmr_activated_epoch = enf_new mmr_activated_epoch_number 0 1;
          has_chain_root = enf_cmp (h_epoch (vh_header self)) mmr_activated_epoch = Greater;
          root_ok = (if h_number (vh_header self) = 0 then vh_parent_chain_root self = default_digest
            else (case vh_extension self of
                None \<Rightarrow> False
              | Some extension \<Rightarrow>
                  (let hash = calc_mmr_hash (vh_parent_chain_root self) in take (length hash) extension = hash)))
      in if has_chain_root \<and> \<not> root_ok then False
         else extra_hash blake2b (vh_uncles_hash self) (map_option blake2b (vh_extension self)) =
              h_extra_hash (vh_header self))"

definition verifiable_total_difficulty :: "u256_lib \<Rightarrow> u256_bits \<Rightarrow> VerifiableHeader \<Rightarrow> u256 option" where
  "verifiable_total_difficulty L B self =
     map_option (u_add L (hd_total_difficulty (vh_parent_chain_root self)))
       (compact_to_difficulty B (h_compact_target (vh_header self)))"

section \<open>Lemmas\<close>

text \<open>The trees of headers a mountain range can have, and the digest of their root.\<close>

datatype digest_tree = Header HeaderView | Merge digest_tree digest_tree

primrec tree_headers :: "digest_tree \<Rightarrow> HeaderView list" where
  "tree_headers (Header h) = [h]"
| "tree_headers (Merge l r) = tree_headers l @ tree_headers r"

primrec tree_digest ::
    "u256_lib \<Rightarrow> u256_bits \<Rightarrow> (HeaderDigest \<Rightarrow> HeaderDigest \<Rightarrow> byte32) \<Rightarrow> digest_tree \<Rightarrow> (MergeError + HeaderDigest) option" where
  "tree_digest L B mh (Header h) = map_option Inr (header_digest B h)"
| "tree_digest L B mh (Merge l r) =
     (case (tree_digest L B mh l, tree_digest L B mh r) of
       (Some (Inr a), Some (Inr b)) \<Rightarrow> merge_digest L mh a b
     | (Some (Inl e), Some _) \<Rightarrow> Some (Inl e)
     | (Some (Inr _), Some (Inl e)) \<Rightarrow> Some (Inl e)
     | _ \<Rightarrow> None)"

definition header_difficulty :: "u256_bits \<Rightarrow> HeaderView \<Rightarrow> nat" where
  "header_difficulty B h = (case compact_to_difficulty B (h_compact_target h) of Some d \<Rightarrow> unat d | None \<Rightarrow> 0)"

text \<open>Two headers that may follow each other on a chain.\<close>

definition headers_continuous :: "HeaderView \<Rightarrow> HeaderView \<Rightarrow> bool" where
  "headers_continuous a b \<longleftrightarrow> unat (h_number b) = unat (h_number a) + 1 \<and>
     (is_successor_of (h_epoch b) (h_epoch a) \<or> enf_is_genesis (h_epoch a))"

lemma tree_headers_nonempty [simp]: "tree_headers t \<noteq> []"
  by (induction t) simp_all

lemma merge_digest_Some:
  "merge_digest L mh a b = Some (Inr d) \<longleftrightarrow>
     unat (hd_start_number b) = unat (hd_end_number a) + 1 \<and>
     (is_successor_of (hd_start_epoch b) (hd_end_epoch a) \<or> enf_is_genesis (hd_end_epoch a)) \<and>
     d = \<lparr>hd_children_hash = mh a b, hd_total_difficulty = u_add L (hd_total_difficulty a) (hd_total_difficulty b),
          hd_start_number = hd_start_number a, hd_end_number = hd_end_number b,
          hd_start_epoch = hd_start_epoch a, hd_end_epoch = hd_end_epoch b,
          hd_start_timestamp = hd_start_timestamp a, hd_end_timestamp = hd_end_timestamp b,
          hd_start_compact_target = hd_start_compact_target a, hd_end_compact_target = hd_end_compact_target b\<rparr>"
proof -
  have "checked_add (hd_end_number a) 1 = Some n \<Longrightarrow> (n = hd_start_number b) = (unat (hd_start_number b) = unat (hd_end_number a) + 1)" for n
    by (auto simp: checked_add_Some word_unat_eq_iff)
  moreover have "checked_add (hd_end_number a) 1 = None \<Longrightarrow> unat (hd_start_number b) \<noteq> unat (hd_end_number a) + 1"
    using unat_lt2p [of "hd_start_number b"] by (simp add: checked_add_None)
  ultimately show ?thesis by (auto simp: merge_digest_def split: option.splits)
qed

text \<open>What the digest of a tree says of the headers below it.\<close>

definition digest_describes :: "u256_bits \<Rightarrow> HeaderView list \<Rightarrow> HeaderDigest \<Rightarrow> bool" where
  "digest_describes B hs d \<longleftrightarrow>
     hd_start_number d = h_number (hd hs) \<and> hd_start_epoch d = h_epoch (hd hs) \<and>
     hd_start_timestamp d = h_timestamp (hd hs) \<and> hd_start_compact_target d = h_compact_target (hd hs) \<and>
     hd_end_number d = h_number (last hs) \<and> hd_end_epoch d = h_epoch (last hs) \<and>
     hd_end_timestamp d = h_timestamp (last hs) \<and> hd_end_compact_target d = h_compact_target (last hs) \<and>
     unat (hd_total_difficulty d) = sum_list (map (header_difficulty B) hs) \<and> successively headers_continuous hs"

lemma tree_digest_describes:
  assumes "u256_ok L" "tree_digest L B mh t = Some (Inr d)" "sum_list (map (header_difficulty B) (tree_headers t)) < 2 ^ 256"
  shows "digest_describes B (tree_headers t) d"
  using assms(2,3)
proof (induction t arbitrary: d)
  case (Header h)
  then show ?case by (auto simp: header_digest_def digest_describes_def header_difficulty_def)
next
  case (Merge l r)
  then obtain a b where ab: "tree_digest L B mh l = Some (Inr a)" "tree_digest L B mh r = Some (Inr b)"
    and d: "merge_digest L mh a b = Some (Inr d)"
    by (auto split: option.splits sum.splits)
  have a: "digest_describes B (tree_headers l) a" and b: "digest_describes B (tree_headers r) b"
    using Merge ab by simp_all
  then have "unat (u_add L (hd_total_difficulty a) (hd_total_difficulty b)) =
      unat (hd_total_difficulty a) + unat (hd_total_difficulty b)"
    using Merge.prems(2) assms(1) by (intro u_add_nat) (simp_all add: digest_describes_def)
  then show ?case
    using a b d by (auto simp: merge_digest_Some digest_describes_def successively_append_iff headers_continuous_def)
qed

lemma successively_numbers:
  assumes "successively headers_continuous hs" "i < length hs"
  shows "unat (h_number (hs ! i)) = unat (h_number (hd hs)) + i"
  using assms
proof (induction i)
  case 0
  then show ?case by (simp add: hd_conv_nth)
next
  case (Suc i)
  then have "headers_continuous (hs ! i) (hs ! Suc i)" by (simp add: successively_conv_nth)
  then show ?case using Suc by (simp add: headers_continuous_def)
qed

section \<open>Properties\<close>

text \<open>C36. However the headers of a mountain range are bracketed, when merging their digests succeeds the headers
  are consecutive: block number \<open>i\<close> places after the first is the first number plus \<open>i\<close> and every epoch
  fraction follows the one before (or starts after the genesis epoch). The root then has the first
  and last header's number, epoch, timestamp and target, and its total difficulty is the exact sum of the
  difficulties of the headers below it.\<close>

theorem chain_root_describes_chain:
  assumes "u256_ok L" "tree_digest L B mh t = Some (Inr d)"
    and "sum_list (map (header_difficulty B) (tree_headers t)) < 2 ^ 256"
  shows "(\<forall>i<length (tree_headers t). unat (h_number (tree_headers t ! i)) = unat (hd_start_number d) + i) \<and>
    unat (hd_end_number d) + 1 = unat (hd_start_number d) + length (tree_headers t) \<and>
    (\<forall>i. Suc i < length (tree_headers t) \<longrightarrow>
       is_successor_of (h_epoch (tree_headers t ! Suc i)) (h_epoch (tree_headers t ! i)) \<or>
       enf_is_genesis (h_epoch (tree_headers t ! i))) \<and>
    hd_start_epoch d = h_epoch (hd (tree_headers t)) \<and> hd_end_epoch d = h_epoch (last (tree_headers t)) \<and>
    unat (hd_total_difficulty d) = sum_list (map (header_difficulty B) (tree_headers t))"
proof -
  note D = tree_digest_describes [OF assms]
  then have s: "successively headers_continuous (tree_headers t)" by (simp add: digest_describes_def)
  have "unat (h_number (last (tree_headers t))) = unat (h_number (hd (tree_headers t))) + (length (tree_headers t) - 1)"
    using successively_numbers [OF s, of "length (tree_headers t) - 1"] by (simp add: last_conv_nth)
  moreover have "headers_continuous (tree_headers t ! i) (tree_headers t ! Suc i)" if "Suc i < length (tree_headers t)" for i
    using s that by (simp add: successively_conv_nth)
  ultimately show ?thesis
    using D successively_numbers [OF s] by (auto simp: digest_describes_def headers_continuous_def Suc_leI)
qed

definition ex_root_header :: "u64 \<Rightarrow> u64 \<Rightarrow> HeaderView" where
  "ex_root_header number index = \<lparr>h_version = 0, h_compact_target = DIFF_TWO, h_timestamp = number, h_number = number,
     h_epoch = enf_new 1 index 1000, h_parent_hash = [], h_transactions_root = [], h_proposals_hash = [],
     h_extra_hash = [], h_dao = [], h_nonce = 0, h_hash = []\<rparr>"

definition ex_root_tree :: digest_tree where
  "ex_root_tree = Merge (Merge (Header (ex_root_header 1000 0)) (Header (ex_root_header 1001 1))) (Header (ex_root_header 1002 2))"

lemma difficulty_two: "compact_to_difficulty u256_bit_words DIFF_TWO = Some 2"
  by (simp add: compact_to_difficulty_def compact_to_target_def target_to_difficulty_def u256_bit_words_def DIFF_TWO_def)

theorem chain_root_describes_chain_witness:
  "\<exists>d. tree_digest u256_words u256_bit_words (\<lambda>_ _. []) ex_root_tree = Some (Inr d) \<and>
     unat (hd_end_number d) + 1 = unat (hd_start_number d) + 3 \<and> unat (hd_total_difficulty d) = 6"
proof -
  have e: "enf_number (enf_new 1 i 1000) = 1 \<and> enf_index (enf_new 1 i 1000) = i \<and> enf_length (enf_new 1 i 1000) = 1000"
    if "i \<in> {0, 1, 2}" for i
    using that enf_new_fields [of 1 i 1000] by auto
  have "\<exists>d. tree_digest u256_words u256_bit_words (\<lambda>_ _. []) ex_root_tree = Some (Inr d)"
    by (simp add: ex_root_tree_def header_digest_def ex_root_header_def difficulty_two merge_digest_def checked_add_def
        is_successor_of_def e)
  then obtain d where d: "tree_digest u256_words u256_bit_words (\<lambda>_ _. []) ex_root_tree = Some (Inr d)" by blast
  have "map (header_difficulty u256_bit_words) (tree_headers ex_root_tree) = [2, 2, 2]"
    by (simp add: ex_root_tree_def ex_root_header_def header_difficulty_def difficulty_two)
  moreover have "length (tree_headers ex_root_tree) = 3" by (simp add: ex_root_tree_def)
  ultimately show ?thesis
    using chain_root_describes_chain [OF u256_words_ok d] d by auto
qed

end
