(* ===== verification/Store.thy ===== *)
theory Store
  imports Cell_Resolve Chain_Root
begin

text \<open>
  The chain store: the columns of the key-value database and the operations of \<open>ChainStore\<close>
  (\<open>store/src/store.rs\<close>), \<open>StoreTransaction\<close> (\<open>store/src/transaction.rs\<close>) and the live
  cell set (\<open>store/src/cell.rs\<close>). A column is a map from keys to decoded values; the column of
  block bodies, whose keys are a block hash followed by a big-endian index, keeps for every hash its
  entries in the order of the index, which is the order an iteration visits them. What the LRU caches
  hold and what the freezer returns are fields of the database too; reads consult them as the code
  does. The database engine itself (RocksDB) is taken to perform the reads and writes it is asked for.

  The lemmas show that a block reads back as it was inserted, that attaching a block makes its outputs
  live and its inputs dead, that detaching blocks undoes attaching them exactly (index, transaction
  index, live cells and their data), and that the ancestor lookup, which takes a short cut through
  the main-chain index, returns what following parent links returns.
\<close>

section \<open>Columns\<close>

record BlockExt =
  be_received_at :: u64
  be_total_difficulty :: u256
  be_total_uncles_count :: u64
  be_verified :: "bool option"
  be_txs_fees :: "capacity list"
  be_cycles :: "u64 list option"
  be_txs_sizes :: "u64 list option"

record CellEntry =
  ce_output :: CellOutput
  ce_block_hash :: byte32
  ce_block_number :: u64
  ce_block_epoch :: EpochNumberWithFraction
  ce_index :: u32
  ce_data_size :: u64

record CellDataEntry =
  cde_output_data :: "u8 list"
  cde_output_data_hash :: byte32

record ChainDB =
  col_index :: "u64 \<rightharpoonup> byte32"
  col_index_hash :: "byte32 \<rightharpoonup> u64"
  col_header :: "byte32 \<rightharpoonup> HeaderView"
  col_body :: "byte32 \<Rightarrow> (u32 \<times> TransactionView) list"
  col_block_uncle :: "byte32 \<rightharpoonup> UncleBlockView list"
  col_extension :: "byte32 \<rightharpoonup> u8 list"
  col_number_hash :: "u64 \<times> byte32 \<rightharpoonup> u32"
  col_proposal_ids :: "byte32 \<rightharpoonup> ProposalShortId list"
  col_ext :: "byte32 \<rightharpoonup> BlockExt"
  col_tx_info :: "byte32 \<rightharpoonup> TransactionInfo"
  col_uncles :: "byte32 \<rightharpoonup> HeaderView"
  col_cell :: "OutPoint \<rightharpoonup> CellEntry"
  col_cell_data :: "OutPoint \<rightharpoonup> CellDataEntry option"
  col_cell_data_hash :: "OutPoint \<rightharpoonup> byte32 option"
  col_block_epoch :: "byte32 \<rightharpoonup> byte32"
  col_epoch :: "byte32 \<rightharpoonup> EpochExt"
  col_epoch_number :: "u64 \<rightharpoonup> byte32"
  col_block_filter :: "byte32 \<rightharpoonup> u8 list"
  col_block_filter_hash :: "byte32 \<rightharpoonup> byte32"
  col_chain_root_mmr :: "u64 \<rightharpoonup> HeaderDigest"
  meta_latest_built_filter_data :: "byte32 option"
  meta_tip :: "byte32 option"
  meta_current_epoch :: "EpochExt option"
  cache_headers :: "byte32 \<rightharpoonup> HeaderView"
  cache_cell_data :: "OutPoint \<rightharpoonup> u8 list \<times> byte32"
  cache_cell_data_hash :: "OutPoint \<rightharpoonup> byte32"
  cache_proposals :: "byte32 \<rightharpoonup> ProposalShortId list"
  cache_tx_hashes :: "byte32 \<rightharpoonup> byte32 list"
  cache_uncles :: "byte32 \<rightharpoonup> UncleBlockView list"
  cache_extensions :: "byte32 \<rightharpoonup> u8 list option"
  freezer_number :: "u64 option"
  freezer_retrieve :: "u64 \<Rightarrow> BlockView option option" \<comment> \<open>outer \<open>None\<close>: the read fails and the caller panics\<close>

abbreviation b_hash :: "BlockView \<Rightarrow> byte32" where "b_hash block \<equiv> h_hash (b_header block)"
abbreviation b_number :: "BlockView \<Rightarrow> u64" where "b_number block \<equiv> h_number (b_header block)"
abbreviation b_parent_hash :: "BlockView \<Rightarrow> byte32" where "b_parent_hash block \<equiv> h_parent_hash (b_header block)"

section \<open>Reads\<close>

definition get_block_header :: "ChainDB \<Rightarrow> byte32 \<Rightarrow> HeaderView option" where
  "get_block_header db hash =
     (case cache_headers db hash of Some header \<Rightarrow> Some header | None \<Rightarrow> col_header db hash)"

definition get_block_body :: "ChainDB \<Rightarrow> byte32 \<Rightarrow> TransactionView list" where
  "get_block_body db hash = map snd (col_body db hash)"

definition get_block_txs_hashes :: "ChainDB \<Rightarrow> byte32 \<Rightarrow> byte32 list" where
  "get_block_txs_hashes db hash =
     (case cache_tx_hashes db hash of
       Some hashes \<Rightarrow> hashes
     | None \<Rightarrow> map (\<lambda>(_, tx). tx_hash tx) (col_body db hash))"

definition get_block_proposal_txs_ids :: "ChainDB \<Rightarrow> byte32 \<Rightarrow> ProposalShortId list option" where
  "get_block_proposal_txs_ids db hash =
     (case cache_proposals db hash of Some data \<Rightarrow> Some data | None \<Rightarrow> col_proposal_ids db hash)"

definition get_block_uncles :: "ChainDB \<Rightarrow> byte32 \<Rightarrow> UncleBlockView list option" where
  "get_block_uncles db hash =
     (case cache_uncles db hash of Some data \<Rightarrow> Some data | None \<Rightarrow> col_block_uncle db hash)"

definition get_block_extension :: "ChainDB \<Rightarrow> byte32 \<Rightarrow> u8 list option" where
  "get_block_extension db hash =
     (case cache_extensions db hash of Some data \<Rightarrow> data | None \<Rightarrow> col_extension db hash)"

definition new_unchecked ::
    "HeaderView \<Rightarrow> UncleBlockView list \<Rightarrow> TransactionView list \<Rightarrow> ProposalShortId list \<Rightarrow> u8 list option \<Rightarrow> BlockView" where
  "new_unchecked header uncles body proposals extension =
     \<lparr>b_header = header, b_uncles = uncles, b_transactions = body, b_proposals = proposals, b_extension = extension\<rparr>"

text \<open>Whether a block number is served from the freezer, \<open>0 < n < freezer.number()\<close>.\<close>

definition is_frozen :: "ChainDB \<Rightarrow> u64 \<Rightarrow> bool" where
  "is_frozen db n \<longleftrightarrow> n > 0 \<and> (case freezer_number db of None \<Rightarrow> False | Some f \<Rightarrow> n < f)"

text \<open>Two levels of \<open>option\<close>: the outer \<open>None\<close> is a panic of an \<open>expect\<close>.\<close>

definition get_unfrozen_parts :: "ChainDB \<Rightarrow> byte32 \<Rightarrow> HeaderView \<Rightarrow> BlockView option option" where
  "get_unfrozen_parts db h header =
     (case (get_block_uncles db h, get_block_proposal_txs_ids db h) of
       (Some uncles, Some proposals) \<Rightarrow>
         Some (Some (new_unchecked header uncles (get_block_body db h) proposals (get_block_extension db h)))
     | _ \<Rightarrow> None)"

definition get_block :: "ChainDB \<Rightarrow> byte32 \<Rightarrow> BlockView option option" where
  "get_block db h =
     (case get_block_header db h of
       None \<Rightarrow> Some None
     | Some header \<Rightarrow>
         (if is_frozen db (h_number header)
          then (case freezer_retrieve db (h_number header) of
                 None \<Rightarrow> None
               | Some None \<Rightarrow> Some None
               | Some (Some raw_block) \<Rightarrow>
                   if b_hash raw_block = h then Some (Some raw_block) else get_unfrozen_parts db h header)
          else get_unfrozen_parts db h header))"

definition get_unfrozen_block :: "ChainDB \<Rightarrow> byte32 \<Rightarrow> BlockView option option" where
  "get_unfrozen_block db hash =
     (case col_header db hash of
       None \<Rightarrow> Some None
     | Some header \<Rightarrow>
         (case (col_block_uncle db hash, col_proposal_ids db hash) of
           (Some uncles, Some proposals) \<Rightarrow>
             Some (Some (new_unchecked header uncles (get_block_body db hash) proposals (col_extension db hash)))
         | _ \<Rightarrow> None))"

definition get_block_ext :: "ChainDB \<Rightarrow> byte32 \<Rightarrow> BlockExt option" where
  "get_block_ext db block_hash = col_ext db block_hash"

definition get_block_hash :: "ChainDB \<Rightarrow> u64 \<Rightarrow> byte32 option" where
  "get_block_hash db number = col_index db number"

definition get_block_number :: "ChainDB \<Rightarrow> byte32 \<Rightarrow> u64 option" where
  "get_block_number db hash = col_index_hash db hash"

definition is_main_chain :: "ChainDB \<Rightarrow> byte32 \<Rightarrow> bool" where
  "is_main_chain db hash \<longleftrightarrow> col_index_hash db hash \<noteq> None"

definition get_tip_header :: "ChainDB \<Rightarrow> HeaderView option" where
  "get_tip_header db = Option.bind (meta_tip db) (get_block_header db)"

definition transaction_exists :: "ChainDB \<Rightarrow> byte32 \<Rightarrow> bool" where
  "transaction_exists db hash \<longleftrightarrow> col_tx_info db hash \<noteq> None"

definition get_transaction_info :: "ChainDB \<Rightarrow> byte32 \<Rightarrow> TransactionInfo option" where
  "get_transaction_info db hash = col_tx_info db hash"

definition body_transaction :: "ChainDB \<Rightarrow> TransactionInfo \<Rightarrow> TransactionView option" where
  "body_transaction db info = map_of (col_body db (ti_block_hash info)) (word_of_nat (ti_index info))"

definition get_transaction_with_info :: "ChainDB \<Rightarrow> byte32 \<Rightarrow> (TransactionView \<times> TransactionInfo) option option" where
  "get_transaction_with_info db hash =
     (case get_transaction_info db hash of
       None \<Rightarrow> Some None
     | Some tx_info \<Rightarrow>
         (let stored = Some (map_option (\<lambda>tx. (tx, tx_info)) (body_transaction db tx_info))
          in if is_frozen db (ti_block_number tx_info)
             then (case freezer_retrieve db (ti_block_number tx_info) of
                    None \<Rightarrow> None
                  | Some None \<Rightarrow> Some None
                  | Some (Some raw_block) \<Rightarrow>
                      (case get_nth (b_transactions raw_block) (ti_index tx_info) of
                        Some tx \<Rightarrow>
                          if b_hash raw_block = ti_block_hash tx_info \<and> tx_hash tx = hash
                          then Some (Some (tx, tx_info)) else stored
                      | None \<Rightarrow> stored))
             else stored))"

definition get_transaction :: "ChainDB \<Rightarrow> byte32 \<Rightarrow> (TransactionView \<times> byte32) option option" where
  "get_transaction db hash =
     map_option (map_option (\<lambda>(tx, tx_info). (tx, ti_block_hash tx_info))) (get_transaction_with_info db hash)"

definition have_cell :: "ChainDB \<Rightarrow> OutPoint \<Rightarrow> bool" where
  "have_cell db out_point \<longleftrightarrow> col_cell db out_point \<noteq> None"

definition build_cell_meta_from_reader :: "OutPoint \<Rightarrow> CellEntry \<Rightarrow> CellMeta" where
  "build_cell_meta_from_reader out_point entry =
     \<lparr>cell_output = ce_output entry, cm_out_point = out_point,
      transaction_info = Some \<lparr>ti_block_hash = ce_block_hash entry, ti_block_number = ce_block_number entry,
        ti_block_epoch = ce_block_epoch entry, ti_index = unat (ce_index entry)\<rparr>,
      data_bytes = ce_data_size entry, mem_cell_data = None, mem_cell_data_hash = None\<rparr>"

definition get_cell :: "ChainDB \<Rightarrow> OutPoint \<Rightarrow> CellMeta option" where
  "get_cell db out_point = map_option (build_cell_meta_from_reader out_point) (col_cell db out_point)"

definition byte32_zero :: byte32 where "byte32_zero = replicate 32 0"

definition get_cell_data :: "ChainDB \<Rightarrow> OutPoint \<Rightarrow> (u8 list \<times> byte32) option" where
  "get_cell_data db out_point =
     (case cache_cell_data db out_point of
       Some cached \<Rightarrow> Some cached
     | None \<Rightarrow>
         map_option (\<lambda>slice. case slice of
             Some entry \<Rightarrow> (cde_output_data entry, cde_output_data_hash entry)
           | None \<Rightarrow> ([], byte32_zero)) (col_cell_data db out_point))"

definition get_cell_data_hash :: "ChainDB \<Rightarrow> OutPoint \<Rightarrow> byte32 option" where
  "get_cell_data_hash db out_point =
     (case cache_cell_data_hash db out_point of
       Some cached \<Rightarrow> Some cached
     | None \<Rightarrow>
         map_option (\<lambda>raw. case raw of Some hash \<Rightarrow> hash | None \<Rightarrow> byte32_zero) (col_cell_data_hash db out_point))"

definition get_current_epoch_ext :: "ChainDB \<Rightarrow> EpochExt option" where
  "get_current_epoch_ext db = meta_current_epoch db"

definition get_epoch_ext :: "ChainDB \<Rightarrow> byte32 \<Rightarrow> EpochExt option" where
  "get_epoch_ext db hash = col_epoch db hash"

definition get_epoch_index :: "ChainDB \<Rightarrow> u64 \<Rightarrow> byte32 option" where
  "get_epoch_index db number = col_epoch_number db number"

definition get_block_epoch_index :: "ChainDB \<Rightarrow> byte32 \<Rightarrow> byte32 option" where
  "get_block_epoch_index db block_hash = col_block_epoch db block_hash"

definition store_get_block_epoch :: "ChainDB \<Rightarrow> byte32 \<Rightarrow> EpochExt option" where
  "store_get_block_epoch db hash = Option.bind (get_block_epoch_index db hash) (get_epoch_ext db)"

definition is_uncle :: "ChainDB \<Rightarrow> byte32 \<Rightarrow> bool" where
  "is_uncle db hash \<longleftrightarrow> col_uncles db hash \<noteq> None"

definition get_uncle_header :: "ChainDB \<Rightarrow> byte32 \<Rightarrow> HeaderView option" where
  "get_uncle_header db hash = col_uncles db hash"

definition block_exists :: "ChainDB \<Rightarrow> byte32 \<Rightarrow> bool" where
  "block_exists db hash \<longleftrightarrow> cache_headers db hash \<noteq> None \<or> col_header db hash \<noteq> None"

definition get_cellbase :: "ChainDB \<Rightarrow> byte32 \<Rightarrow> TransactionView option" where
  "get_cellbase db hash = map_of (col_body db hash) 0"

text \<open>The recursion follows parent links; that it ends is a property of the stored chain.\<close>

definition get_latest_built_filter_data_block_hash :: "ChainDB \<Rightarrow> byte32 option" where
  "get_latest_built_filter_data_block_hash db = meta_latest_built_filter_data db"

definition get_block_filter :: "ChainDB \<Rightarrow> byte32 \<Rightarrow> u8 list option" where
  "get_block_filter db hash = col_block_filter db hash"

definition get_block_filter_hash :: "ChainDB \<Rightarrow> byte32 \<Rightarrow> byte32 option" where
  "get_block_filter_hash db hash = col_block_filter_hash db hash"

text \<open>The data of a view: the packed structure without the hashes the view caches.\<close>

definition tx_data :: "TransactionView \<Rightarrow> TransactionView" where
  "tx_data tx = tx\<lparr>tx_hash := [], witness_hash := []\<rparr>"

definition header_data :: "HeaderView \<Rightarrow> HeaderView" where
  "header_data header = header\<lparr>h_hash := []\<rparr>"

definition block_data :: "BlockView \<Rightarrow> BlockView" where
  "block_data block =
     \<lparr>b_header = header_data (b_header block),
      b_uncles = map (\<lambda>u. u\<lparr>uncle_header := header_data (uncle_header u)\<rparr>) (b_uncles block),
      b_transactions = map tx_data (b_transactions block),
      b_proposals = b_proposals block, b_extension = b_extension block\<rparr>"

definition get_packed_block :: "ChainDB \<Rightarrow> byte32 \<Rightarrow> BlockView option" where
  "get_packed_block db hash =
     Option.bind (col_header db hash) (\<lambda>header.
     Option.bind (get_block_uncles db hash) (\<lambda>uncles.
     Option.bind (get_block_proposal_txs_ids db hash) (\<lambda>proposals.
       Some (block_data (new_unchecked header uncles (get_block_body db hash) proposals (get_block_extension db hash))))))"

definition get_packed_block_header :: "ChainDB \<Rightarrow> byte32 \<Rightarrow> HeaderView option" where
  "get_packed_block_header db hash = map_option header_data (col_header db hash)"

definition get_header_digest :: "ChainDB \<Rightarrow> u64 \<Rightarrow> HeaderDigest option" where
  "get_header_digest db pos = col_chain_root_mmr db pos"

partial_function (option) get_ancestor :: "ChainDB \<Rightarrow> byte32 \<Rightarrow> u64 \<Rightarrow> HeaderView option option" where
  "get_ancestor db base number =
     (case get_block_header db base of
       None \<Rightarrow> Some None
     | Some header \<Rightarrow>
         if number > h_number header then Some None
         else if number = h_number header then Some (Some header)
         else if is_main_chain db base
           then Some (Option.bind (get_block_hash db number) (get_block_header db))
         else get_ancestor db (h_parent_hash header) number)"

text \<open>The store as cell provider and checker (\<open>impl CellProvider for StoreTransaction\<close>).\<close>

definition store_cell :: "ChainDB \<Rightarrow> cell_provider" where
  "store_cell db out_point eager_load =
     Some (case get_cell db out_point of
       Some cell_meta \<Rightarrow>
         LiveCell (case (if eager_load then get_cell_data db out_point else None) of
             Some (data, data_hash) \<Rightarrow> cell_meta\<lparr>mem_cell_data := Some data, mem_cell_data_hash := Some data_hash\<rparr>
           | None \<Rightarrow> cell_meta)
     | None \<Rightarrow> UnknownCell)"

definition store_is_live :: "ChainDB \<Rightarrow> OutPoint \<Rightarrow> bool option" where
  "store_is_live db out_point = (if have_cell db out_point then Some True else None)"

section \<open>Writes\<close>

datatype StoreError = DifferentBlockBody byte32 | StorePanic

definition insert_tip_header :: "ChainDB \<Rightarrow> HeaderView \<Rightarrow> ChainDB" where
  "insert_tip_header db h = db\<lparr>meta_tip := Some (h_hash h)\<rparr>"

definition ensure_block_body_identical :: "ChainDB \<Rightarrow> BlockView \<Rightarrow> StoreError + unit" where
  "ensure_block_body_identical db block =
     (case get_block db (b_hash block) of
       None \<Rightarrow> Inl StorePanic
     | Some (Some stored) \<Rightarrow>
         if block_data stored = block_data block then Inr () else Inl (DifferentBlockBody (b_hash block))
     | Some None \<Rightarrow> Inl (DifferentBlockBody (b_hash block)))"

definition insert_block :: "ChainDB \<Rightarrow> BlockView \<Rightarrow> StoreError + ChainDB" where
  "insert_block db block =
     (let hash = b_hash block
      in if col_header db hash \<noteq> None then r_map (\<lambda>_. db) (ensure_block_body_identical db block)
         else Inr (db\<lparr>col_header := (col_header db)(hash \<mapsto> b_header block),
                      col_block_uncle := (col_block_uncle db)(hash \<mapsto> b_uncles block),
                      col_extension :=
                        (case b_extension block of
                          Some extension \<Rightarrow> (col_extension db)(hash \<mapsto> extension)
                        | None \<Rightarrow> col_extension db),
                      col_number_hash :=
                        (col_number_hash db)((b_number block, hash) \<mapsto> word_of_nat (length (b_transactions block))),
                      col_proposal_ids := (col_proposal_ids db)(hash \<mapsto> b_proposals block),
                      col_body := (col_body db)(hash :=
                        fold (\<lambda>(index, tx). btree_insert (word_of_nat index) tx)
                          (enumerate 0 (b_transactions block)) (col_body db hash))\<rparr>))"

definition delete_block :: "ChainDB \<Rightarrow> BlockView \<Rightarrow> ChainDB" where
  "delete_block db block =
     (let hash = b_hash block
      in db\<lparr>col_header := (col_header db)(hash := None),
            col_block_uncle := (col_block_uncle db)(hash := None),
            col_extension := (col_extension db)(hash := None),
            col_proposal_ids := (col_proposal_ids db)(hash := None),
            col_number_hash := (col_number_hash db)((b_number block, hash) := None),
            col_body := (col_body db)(hash :=
              filter (\<lambda>(i, _). i \<notin> set (map word_of_nat [0..<length (b_transactions block)])) (col_body db hash))\<rparr>)"

definition insert_block_ext :: "ChainDB \<Rightarrow> byte32 \<Rightarrow> BlockExt \<Rightarrow> ChainDB" where
  "insert_block_ext db block_hash ext = db\<lparr>col_ext := (col_ext db)(block_hash \<mapsto> ext)\<rparr>"

definition attach_block :: "ChainDB \<Rightarrow> BlockView \<Rightarrow> ChainDB" where
  "attach_block db block =
     db\<lparr>col_tx_info :=
          fold (\<lambda>(index, tx) m. m(tx_hash tx \<mapsto>
              \<lparr>ti_block_hash = b_hash block, ti_block_number = b_number block,
               ti_block_epoch = h_epoch (b_header block), ti_index = unat (word_of_nat index :: u32)\<rparr>))
            (enumerate 0 (b_transactions block)) (col_tx_info db),
        col_index := (col_index db)(b_number block \<mapsto> b_hash block),
        col_uncles :=
          fold (\<lambda>uncle m. m(h_hash (uncle_header uncle) \<mapsto> uncle_header uncle)) (b_uncles block) (col_uncles db),
        col_index_hash := (col_index_hash db)(b_hash block \<mapsto> b_number block)\<rparr>"

definition detach_block :: "ChainDB \<Rightarrow> BlockView \<Rightarrow> ChainDB" where
  "detach_block db block =
     db\<lparr>col_tx_info := fold (\<lambda>tx m. m(tx_hash tx := None)) (b_transactions block) (col_tx_info db),
        col_uncles := fold (\<lambda>uncle m. m(h_hash (uncle_header uncle) := None)) (b_uncles block) (col_uncles db),
        col_index := (col_index db)(b_number block := None),
        col_index_hash := (col_index_hash db)(b_hash block := None)\<rparr>"

definition insert_block_epoch_index :: "ChainDB \<Rightarrow> byte32 \<Rightarrow> byte32 \<Rightarrow> ChainDB" where
  "insert_block_epoch_index db block_hash epoch_hash =
     db\<lparr>col_block_epoch := (col_block_epoch db)(block_hash \<mapsto> epoch_hash)\<rparr>"

definition insert_epoch_ext :: "ChainDB \<Rightarrow> byte32 \<Rightarrow> EpochExt \<Rightarrow> ChainDB" where
  "insert_epoch_ext db hash epoch =
     db\<lparr>col_epoch := (col_epoch db)(hash \<mapsto> epoch),
        col_epoch_number := (col_epoch_number db)(ee_number epoch \<mapsto> hash)\<rparr>"

definition insert_current_epoch_ext :: "ChainDB \<Rightarrow> EpochExt \<Rightarrow> ChainDB" where
  "insert_current_epoch_ext db epoch = db\<lparr>meta_current_epoch := Some epoch\<rparr>"

type_synonym cell_item = "OutPoint \<times> CellEntry \<times> CellDataEntry option"

definition insert_cells :: "ChainDB \<Rightarrow> cell_item list \<Rightarrow> ChainDB" where
  "insert_cells db cells =
     fold (\<lambda>(out_point, cell, cell_data) db.
         db\<lparr>col_cell := (col_cell db)(out_point \<mapsto> cell),
            col_cell_data := (col_cell_data db)(out_point \<mapsto> cell_data),
            col_cell_data_hash := (col_cell_data_hash db)(out_point \<mapsto> map_option cde_output_data_hash cell_data)\<rparr>)
       cells db"

definition delete_cells :: "ChainDB \<Rightarrow> OutPoint list \<Rightarrow> ChainDB" where
  "delete_cells db out_points =
     fold (\<lambda>out_point db.
         db\<lparr>col_cell := (col_cell db)(out_point := None),
            col_cell_data := (col_cell_data db)(out_point := None),
            col_cell_data_hash := (col_cell_data_hash db)(out_point := None)\<rparr>)
       out_points db"

definition insert_header_digest :: "ChainDB \<Rightarrow> u64 \<Rightarrow> HeaderDigest \<Rightarrow> ChainDB" where
  "insert_header_digest db pos digest = db\<lparr>col_chain_root_mmr := (col_chain_root_mmr db)(pos \<mapsto> digest)\<rparr>"

definition delete_header_digest :: "ChainDB \<Rightarrow> u64 \<Rightarrow> ChainDB" where
  "delete_header_digest db pos = db\<lparr>col_chain_root_mmr := (col_chain_root_mmr db)(pos := None)\<rparr>"

text \<open>The append of the mountain range's store; \<open>None\<close> is the overflow of a position.\<close>

definition mmr_append :: "ChainDB \<Rightarrow> u64 \<Rightarrow> HeaderDigest list \<Rightarrow> ChainDB option" where
  "mmr_append db pos elems =
     fold (\<lambda>(offset, elem) acc.
         Option.bind acc (\<lambda>db. map_option (\<lambda>pos. insert_header_digest db pos elem) (checked_add pos (word_of_nat offset))))
       (enumerate 0 elems) (Some db)"

text \<open>\<open>filter_hash\<close> is \<open>calc_filter_hash\<close>.\<close>

definition insert_block_filter :: "(byte32 \<Rightarrow> u8 list \<Rightarrow> byte32) \<Rightarrow> ChainDB \<Rightarrow> byte32 \<Rightarrow> u8 list \<Rightarrow> byte32 \<Rightarrow> ChainDB" where
  "insert_block_filter filter_hash db block_hash filter_data parent_block_filter_hash =
     db\<lparr>col_block_filter := (col_block_filter db)(block_hash \<mapsto> filter_data),
        col_block_filter_hash := (col_block_filter_hash db)(block_hash \<mapsto> filter_hash parent_block_filter_hash filter_data),
        meta_latest_built_filter_data := Some block_hash\<rparr>"

section \<open>The live cell set\<close>

text \<open>The entries of one output; \<open>data_hash\<close> is \<open>CellOutput::calc_data_hash\<close>.\<close>

definition cell_entries ::
    "(u8 list \<Rightarrow> byte32) \<Rightarrow> OutPoint \<Rightarrow> TransactionInfo \<Rightarrow> CellOutput \<Rightarrow> u8 list \<Rightarrow> cell_item" where
  "cell_entries data_hash out_point info out data =
     (out_point,
      \<lparr>ce_output = out, ce_block_hash = ti_block_hash info, ce_block_number = ti_block_number info,
       ce_block_epoch = ti_block_epoch info, ce_index = word_of_nat (ti_index info),
       ce_data_size = word_of_nat (length data)\<rparr>,
      if data \<noteq> [] then Some \<lparr>cde_output_data = data, cde_output_data_hash = data_hash data\<rparr> else None)"

definition new_cells :: "(u8 list \<Rightarrow> byte32) \<Rightarrow> BlockView \<Rightarrow> cell_item list" where
  "new_cells data_hash block =
     concat (map (\<lambda>(tx_index, tx).
         map (\<lambda>(index, out, data).
             cell_entries data_hash \<lparr>op_tx_hash = tx_hash tx, op_index = word_of_nat index\<rparr>
               \<lparr>ti_block_hash = b_hash block, ti_block_number = b_number block,
                ti_block_epoch = h_epoch (b_header block), ti_index = tx_index\<rparr> out data)
           (enumerate 0 (outputs_with_data tx)))
       (enumerate 0 (b_transactions block)))"

text \<open>The inputs of all transactions but the first, the cellbase.\<close>

definition dead_points :: "BlockView \<Rightarrow> OutPoint list" where
  "dead_points block = concat (map input_pts (drop 1 (b_transactions block)))"

definition attach_block_cell :: "(u8 list \<Rightarrow> byte32) \<Rightarrow> ChainDB \<Rightarrow> BlockView \<Rightarrow> ChainDB" where
  "attach_block_cell data_hash db block =
     delete_cells (insert_cells db (new_cells data_hash block)) (dead_points block)"

text \<open>The entry to restore for a spent cell, \<open>None\<close> inside when its transaction is not on the chain.
  The code groups the inputs by transaction in a hash map; the entries do not depend on the grouping.\<close>

definition undo_dead :: "(u8 list \<Rightarrow> byte32) \<Rightarrow> ChainDB \<Rightarrow> OutPoint \<Rightarrow> cell_item option option" where
  "undo_dead data_hash db pts =
     (case get_transaction_with_info db (op_tx_hash pts) of
       None \<Rightarrow> None
     | Some None \<Rightarrow> Some None
     | Some (Some (tx, info)) \<Rightarrow>
         map_option (map_option (\<lambda>(out, data). cell_entries data_hash pts info out data))
           (output_with_data tx (unat (op_index pts))))"

definition detach_block_cell :: "(u8 list \<Rightarrow> byte32) \<Rightarrow> ChainDB \<Rightarrow> BlockView \<Rightarrow> ChainDB option" where
  "detach_block_cell data_hash db block =
     map_option (\<lambda>undo_deads.
         delete_cells (insert_cells db (List.map_filter (\<lambda>c. c) undo_deads))
           (concat (map output_pts (b_transactions block))))
       (those (map (undo_dead data_hash db) (dead_points block)))"

section \<open>Lemmas\<close>

subsection \<open>Columns as maps\<close>

lemma insert_cells_eq:
  "insert_cells db cells =
     db\<lparr>col_cell := col_cell db ++ map_of (rev (map (\<lambda>(p, e, d). (p, e)) cells)),
        col_cell_data := col_cell_data db ++ map_of (rev (map (\<lambda>(p, e, d). (p, d)) cells)),
        col_cell_data_hash := col_cell_data_hash db ++
          map_of (rev (map (\<lambda>(p, e, d). (p, map_option cde_output_data_hash d)) cells))\<rparr>"
  by (induction cells arbitrary: db) (auto simp: insert_cells_def split_def map_add_def fun_eq_iff split: option.splits)

lemma restrict_map_delete: "(\<lambda>a. if a = p then None else m a) |` (- A) = m |` (- insert p A)"
  by (auto simp: restrict_map_def)

lemma delete_cells_eq:
  "delete_cells db ps =
     db\<lparr>col_cell := (col_cell db) |` (- set ps), col_cell_data := (col_cell_data db) |` (- set ps),
        col_cell_data_hash := (col_cell_data_hash db) |` (- set ps)\<rparr>"
proof (induction ps arbitrary: db)
  case (Cons p ps)
  have "delete_cells db (p # ps) =
      delete_cells (db\<lparr>col_cell := (col_cell db)(p := None), col_cell_data := (col_cell_data db)(p := None),
        col_cell_data_hash := (col_cell_data_hash db)(p := None)\<rparr>) ps"
    by (simp add: delete_cells_def)
  then show ?case by (simp add: Cons.IH fun_upd_def restrict_map_delete)
qed (simp add: delete_cells_def restrict_map_def)

lemma fold_map_upd:
  "fold (\<lambda>x m. m(k x \<mapsto> v x)) xs m = m ++ map_of (rev (map (\<lambda>x. (k x, v x)) xs))"
  by (induction xs arbitrary: m) (auto simp: map_add_def fun_eq_iff split: option.splits)

lemma fold_map_del: "fold (\<lambda>x m. m(k x := None)) xs m = m |` (- (k ` set xs))"
  by (induction xs arbitrary: m) (auto simp: restrict_map_def fun_eq_iff)

text \<open>Writing under keys that were free and deleting them again changes nothing.\<close>

lemma write_delete:
  assumes "\<And>x. x \<in> set xs \<Longrightarrow> m (k x) = None"
  shows "(m ++ map_of (rev (map (\<lambda>x. (k x, v x)) xs))) |` (- (k ` set xs)) = m"
proof
  fix y
  show "((m ++ map_of (rev (map (\<lambda>x. (k x, v x)) xs))) |` (- (k ` set xs))) y = m y"
  proof (cases "y \<in> k ` set xs")
    case False
    then have "map_of (rev (map (\<lambda>x. (k x, v x)) xs)) y = None"
      by (auto simp: map_of_eq_None_iff)
    then show ?thesis using False by (simp add: restrict_map_def map_add_def)
  qed (use assms in \<open>auto simp: restrict_map_def\<close>)
qed

subsection \<open>Blocks read back as they were inserted\<close>

definition store_cache_ok :: "ChainDB \<Rightarrow> byte32 \<Rightarrow> bool" where
  "store_cache_ok db hash \<longleftrightarrow>
     (\<forall>x. cache_headers db hash = Some x \<longrightarrow> col_header db hash = Some x) \<and>
     (\<forall>x. cache_uncles db hash = Some x \<longrightarrow> col_block_uncle db hash = Some x) \<and>
     (\<forall>x. cache_proposals db hash = Some x \<longrightarrow> col_proposal_ids db hash = Some x) \<and>
     (\<forall>x. cache_extensions db hash = Some x \<longrightarrow> col_extension db hash = x)"

lemma store_cache_ok_reads:
  assumes "store_cache_ok db hash"
  shows "get_block_header db hash = col_header db hash" "get_block_uncles db hash = col_block_uncle db hash"
    "get_block_proposal_txs_ids db hash = col_proposal_ids db hash" "get_block_extension db hash = col_extension db hash"
  using assms
  by (auto simp: store_cache_ok_def get_block_header_def get_block_uncles_def get_block_proposal_txs_ids_def
      get_block_extension_def split: option.splits)

text \<open>The caches are transparent for the block lookup.\<close>

lemma get_block_unfrozen:
  assumes "store_cache_ok db hash" "\<And>header. col_header db hash = Some header \<Longrightarrow> \<not> is_frozen db (h_number header)"
  shows "get_block db hash = get_unfrozen_block db hash"
  using assms(2) store_cache_ok_reads [OF assms(1)]
  by (auto simp: get_block_def get_unfrozen_block_def get_unfrozen_parts_def split: option.splits)

lemma fold_btree_insert:
  fixes xs :: "(u32 \<times> TransactionView) list"
  assumes "n + length txs \<le> 2 ^ 32" "\<And>j tx'. (j, tx') \<in> set xs \<Longrightarrow> unat j < n"
  shows "fold (\<lambda>(index, tx). btree_insert (word_of_nat index) tx) (enumerate n txs) xs =
         xs @ map (\<lambda>(index, tx). (word_of_nat index, tx)) (enumerate n txs)"
  using assms
proof (induction txs arbitrary: n xs)
  case (Cons tx txs)
  have n: "unat (word_of_nat n :: u32) = n"
    using Cons.prems(1) by (simp add: unat_of_nat)
  then have "btree_insert (word_of_nat n) tx xs = xs @ [(word_of_nat n, tx)]"
    using Cons.prems(2) by (intro btree_insert_append) (simp add: word_less_nat_alt)
  moreover have "fold (\<lambda>(index, tx). btree_insert (word_of_nat index) tx) (enumerate (Suc n) txs) (xs @ [(word_of_nat n, tx)]) =
      (xs @ [(word_of_nat n, tx)]) @ map (\<lambda>(index, tx). (word_of_nat index, tx)) (enumerate (Suc n) txs)"
    using Cons.prems n by (intro Cons.IH) (auto simp: less_Suc_eq)
  ultimately show ?case by (simp add: enumerate_simps)
qed (simp add: enumerate_simps)

lemma insert_block_body:
  assumes "length (b_transactions block) \<le> 2 ^ 32"
  shows "fold (\<lambda>(index, tx). btree_insert (word_of_nat index) tx) (enumerate 0 (b_transactions block)) [] =
         map (\<lambda>(index, tx). (word_of_nat index :: u32, tx)) (enumerate 0 (b_transactions block))"
  using fold_btree_insert [of 0 "b_transactions block" "[]"] assms by simp

subsection \<open>Detaching undoes attaching\<close>

text \<open>The store invariant of the live cells: a live cell is an output of a transaction of the chain, and
  its entry and data are those the transaction index leads to; a dead cell has no data.\<close>

definition cells_ok :: "(u8 list \<Rightarrow> byte32) \<Rightarrow> ChainDB \<Rightarrow> bool" where
  "cells_ok data_hash db \<longleftrightarrow>
     (\<forall>p e. col_cell db p = Some e \<longrightarrow>
        (\<exists>d. undo_dead data_hash db p = Some (Some (p, e, d)) \<and> col_cell_data db p = Some d \<and>
             col_cell_data_hash db p = Some (map_option cde_output_data_hash d))) \<and>
     (\<forall>p. col_cell db p = None \<longrightarrow> col_cell_data db p = None \<and> col_cell_data_hash db p = None)"

text \<open>A block that can be attached: it and its transactions and uncles are not on the chain, and its
  inputs are live or created by the block itself.\<close>

definition attachable :: "ChainDB \<Rightarrow> BlockView \<Rightarrow> bool" where
  "attachable db block \<longleftrightarrow>
     (\<forall>tx\<in>set (b_transactions block). col_tx_info db (tx_hash tx) = None) \<and>
     col_index db (b_number block) = None \<and> col_index_hash db (b_hash block) = None \<and>
     (\<forall>u\<in>set (b_uncles block). col_uncles db (h_hash (uncle_header u)) = None) \<and>
     (\<forall>p\<in>set (dead_points block). op_tx_hash p \<in> tx_hash ` set (b_transactions block) \<or> have_cell db p)"

lemma attach_block_eq:
  "attach_block db block =
     db\<lparr>col_tx_info := col_tx_info db ++ map_of (rev (map (\<lambda>(index, tx). (tx_hash tx,
          \<lparr>ti_block_hash = b_hash block, ti_block_number = b_number block,
           ti_block_epoch = h_epoch (b_header block), ti_index = unat (word_of_nat index :: u32)\<rparr>))
          (enumerate 0 (b_transactions block)))),
        col_index := (col_index db)(b_number block \<mapsto> b_hash block),
        col_uncles := col_uncles db ++ map_of (rev (map (\<lambda>u. (h_hash (uncle_header u), uncle_header u)) (b_uncles block))),
        col_index_hash := (col_index_hash db)(b_hash block \<mapsto> b_number block)\<rparr>"
  by (simp add: attach_block_def split_def fold_map_upd)

lemma detach_attach_block:
  assumes "attachable db block"
  shows "detach_block (attach_block db block) block = db"
proof -
  let ?info = "\<lambda>(index, tx). (tx_hash tx,
          \<lparr>ti_block_hash = b_hash block, ti_block_number = b_number block,
           ti_block_epoch = h_epoch (b_header block), ti_index = unat (word_of_nat index :: u32)\<rparr>)"
  have tx: "tx_hash ` set (b_transactions block) = (\<lambda>(i, tx). tx_hash tx) ` set (enumerate 0 (b_transactions block))"
    using set_map [of snd "enumerate 0 (b_transactions block)"] by (simp add: image_image split_def)
  have "(col_tx_info db ++ map_of (rev (map ?info (enumerate 0 (b_transactions block)))))
        |` (- (tx_hash ` set (b_transactions block))) = col_tx_info db"
    unfolding tx using assms
      write_delete [of "enumerate 0 (b_transactions block)" "col_tx_info db" "\<lambda>(i, tx). tx_hash tx" "snd \<circ> ?info"]
    by (auto simp: split_def attachable_def in_set_enumerate_eq)
  moreover have "(col_uncles db ++ map_of (rev (map (\<lambda>u. (h_hash (uncle_header u), uncle_header u)) (b_uncles block))))
        |` (- ((\<lambda>u. h_hash (uncle_header u)) ` set (b_uncles block))) = col_uncles db"
    using assms by (intro write_delete) (simp add: attachable_def)
  moreover have "(col_index db)(b_number block := None) = col_index db"
    "(col_index_hash db)(b_hash block := None) = col_index_hash db"
    using assms by (simp_all add: attachable_def fun_upd_idem)
  ultimately show ?thesis
    by (simp add: detach_block_def attach_block_eq fold_map_del)
qed

text \<open>Which transaction an out-point leads to depends on the transaction index, the bodies and the freezer only.\<close>

lemma undo_dead_cong:
  assumes "col_tx_info db' (op_tx_hash p) = col_tx_info db (op_tx_hash p)" "col_body db' = col_body db"
    "freezer_number db' = freezer_number db" "freezer_retrieve db' = freezer_retrieve db"
  shows "undo_dead data_hash db' p = undo_dead data_hash db p"
proof -
  have eqs: "is_frozen db' = is_frozen db" "body_transaction db' = body_transaction db"
    using assms by (simp_all add: is_frozen_def body_transaction_def fun_eq_iff)
  have "get_transaction_with_info db' (op_tx_hash p) = get_transaction_with_info db (op_tx_hash p)"
    unfolding get_transaction_with_info_def get_transaction_info_def assms eqs by (rule refl)
  then show ?thesis by (simp add: undo_dead_def)
qed

lemma undo_dead_cells [simp]:
  "undo_dead data_hash (db\<lparr>col_cell := a, col_cell_data := b, col_cell_data_hash := c\<rparr>) = undo_dead data_hash db"
  by (rule ext, rule undo_dead_cong) simp_all

lemma undo_dead_fresh: "col_tx_info db (op_tx_hash p) = None \<Longrightarrow> undo_dead data_hash db p = Some None"
  by (simp add: undo_dead_def get_transaction_with_info_def get_transaction_info_def)

lemma new_cells_keys:
  assumes "(p, e, d) \<in> set (new_cells data_hash block)"
  shows "p \<in> set (concat (map output_pts (b_transactions block)))"
proof -
  obtain i tx j out data where 1: "(i, tx) \<in> set (enumerate 0 (b_transactions block))"
    "(j, out, data) \<in> set (enumerate 0 (outputs_with_data tx))" "p = \<lparr>op_tx_hash = tx_hash tx, op_index = word_of_nat j\<rparr>"
    using assms by (auto simp: new_cells_def cell_entries_def)
  then have "tx \<in> set (b_transactions block)" "j < length (outputs tx)"
    by (auto simp: in_set_enumerate_eq outputs_with_data_def)
  then show ?thesis using 1(3) by (auto simp: output_pts_def intro!: bexI [of _ tx])
qed

lemma new_cells_none:
  assumes "p \<notin> set (concat (map output_pts (b_transactions block)))"
  shows "map_of (rev (map (\<lambda>(p, e, d). (p, f e d)) (new_cells data_hash block))) p = None"
  using assms new_cells_keys [of p _ _ data_hash block] by (fastforce simp: map_of_eq_None_iff)

lemma output_pts_hash: "p \<in> set (concat (map output_pts txs)) \<Longrightarrow> op_tx_hash p \<in> tx_hash ` set txs"
  by (auto simp: output_pts_def)

lemma map_of_rev_graph:
  "map_of (rev (map (\<lambda>p. (p, g p)) xs)) = (\<lambda>p. if p \<in> set xs then Some (g p) else None)"
proof
  fix p
  show "map_of (rev (map (\<lambda>p. (p, g p)) xs)) p = (if p \<in> set xs then Some (g p) else None)"
  proof (induction xs rule: rev_induct)
    case (snoc x xs)
    then show ?case by auto
  qed simp
qed

lemma restore_column:
  assumes "\<And>p. p \<notin> outs \<Longrightarrow> N p = None" "\<And>p. p \<in> outs \<Longrightarrow> m p = None"
  shows "(((m ++ N) |` (- dead)) ++ (\<lambda>p. if p \<in> dead then m p else None)) |` (- outs) = m"
proof
  fix p
  show "((((m ++ N) |` (- dead)) ++ (\<lambda>p. if p \<in> dead then m p else None)) |` (- outs)) p = m p"
    using assms [of p] by (cases "m p") (auto simp: restrict_map_def map_add_def)
qed

lemma those_map: "(\<And>x. x \<in> set xs \<Longrightarrow> f x = Some (g x)) \<Longrightarrow> those (map f xs) = Some (map g xs)"
  by (induction xs) auto

text \<open>The cells restored for the inputs of a block are those that were live before it was attached.\<close>

lemma undo_deads_of_attachable:
  assumes "cells_ok data_hash db" "attachable db block"
  shows "those (map (undo_dead data_hash db) (dead_points block)) = Some
      (map (\<lambda>p. if have_cell db p then Some (p, the (col_cell db p), the (col_cell_data db p)) else None) (dead_points block))"
proof -
  have "undo_dead data_hash db p =
      Some (if have_cell db p then Some (p, the (col_cell db p), the (col_cell_data db p)) else None)"
    if "p \<in> set (dead_points block)" for p
  proof (cases "col_cell db p")
    case None
    with that assms(2) have "col_tx_info db (op_tx_hash p) = None"
      by (auto simp: attachable_def have_cell_def)
    then show ?thesis using None by (simp add: undo_dead_fresh have_cell_def)
  next
    case (Some e)
    then show ?thesis using assms(1) by (force simp: cells_ok_def have_cell_def)
  qed
  then show ?thesis by (rule those_map)
qed

lemma map_filter_conditional:
  "List.map_filter (\<lambda>c. c) (map (\<lambda>p. if P p then Some (g p) else None) xs) = map g (filter P xs)"
  by (induction xs) (auto simp: List.map_filter_def)

lemma outputs_fresh:
  assumes "cells_ok data_hash db" "attachable db block" "p \<in> set (concat (map output_pts (b_transactions block)))"
  shows "col_cell db p = None"
proof (rule ccontr)
  assume "col_cell db p \<noteq> None"
  then show False
    using assms(1,2) output_pts_hash [OF assms(3)] undo_dead_fresh [of db p data_hash]
    by (force simp: cells_ok_def attachable_def)
qed

text \<open>One of the three columns of cells, attached and detached again.\<close>

lemma restored_column:
  assumes "cells_ok data_hash db" "attachable db block"
    and "\<And>p. col_cell db p = None \<Longrightarrow> m p = None" "\<And>p. col_cell db p \<noteq> None \<Longrightarrow> m p = Some (g p)"
  shows "(((m ++ map_of (rev (map (\<lambda>(p, e, d). (p, f e d)) (new_cells data_hash block)))) |` (- set (dead_points block)))
          ++ map_of (rev (map (\<lambda>p. (p, g p)) (filter (have_cell db) (dead_points block)))))
         |` (- set (concat (map output_pts (b_transactions block)))) = m"
proof -
  have "map_of (rev (map (\<lambda>p. (p, g p)) (filter (have_cell db) (dead_points block)))) =
      (\<lambda>p. if p \<in> set (dead_points block) then m p else None)"
    using assms(3,4) by (auto simp: map_of_rev_graph have_cell_def fun_eq_iff)
  then show ?thesis
    using outputs_fresh [OF assms(1,2)] assms(3)
    by (simp only:) (rule restore_column; auto intro!: new_cells_none)
qed

text \<open>The database between detaching a block from the index and detaching its cells.\<close>

lemma detach_index:
  assumes "attachable db block"
  shows "detach_block (attach_block_cell data_hash (attach_block db block) block) block =
    attach_block_cell data_hash db block"
proof -
  have "detach_block (attach_block_cell data_hash (attach_block db block) block) block =
      attach_block_cell data_hash (detach_block (attach_block db block) block) block"
    by (simp add: attach_block_cell_def delete_cells_eq insert_cells_eq detach_block_def attach_block_eq)
  then show ?thesis by (simp add: detach_attach_block [OF assms])
qed

lemma detach_undoes_attach:
  assumes "cells_ok data_hash db" "attachable db block"
  shows "detach_block_cell data_hash
      (detach_block (attach_block_cell data_hash (attach_block db block) block) block) block = Some db"
proof -
  let ?live = "filter (have_cell db) (dead_points block)"
  have "undo_dead data_hash (attach_block_cell data_hash db block) = undo_dead data_hash db"
    by (simp add: attach_block_cell_def delete_cells_eq insert_cells_eq)
  then have "detach_block_cell data_hash (attach_block_cell data_hash db block) block =
    Some (delete_cells (insert_cells (attach_block_cell data_hash db block)
      (map (\<lambda>p. (p, the (col_cell db p), the (col_cell_data db p))) ?live)) (concat (map output_pts (b_transactions block))))"
    by (simp add: detach_block_cell_def undo_deads_of_attachable [OF assms] map_filter_conditional)
  moreover have 1: "col_cell_data db p = None" "col_cell_data_hash db p = None" if "col_cell db p = None" for p
    using assms(1) that by (simp_all add: cells_ok_def)
  moreover have 2: "col_cell_data db p = Some (the (col_cell_data db p))"
    "col_cell_data_hash db p = Some (map_option cde_output_data_hash (the (col_cell_data db p)))"
    if "col_cell db p \<noteq> None" for p
    using assms(1) that by (force simp: cells_ok_def)+
  note restored_column [of data_hash db block "col_cell db" "\<lambda>p. the (col_cell db p)" "\<lambda>e d. e", OF assms]
    restored_column [of data_hash db block "col_cell_data db" "\<lambda>p. the (col_cell_data db p)" "\<lambda>e d. d", OF assms 1(1) 2(1)]
    restored_column [of data_hash db block "col_cell_data_hash db"
      "\<lambda>p. map_option cde_output_data_hash (the (col_cell_data db p))" "\<lambda>e d. map_option cde_output_data_hash d", OF assms 1(2) 2(2)]
  ultimately show ?thesis
    unfolding detach_index [OF assms(2)]
    by (simp add: attach_block_cell_def delete_cells_eq insert_cells_eq comp_def split_def)
qed

subsection \<open>Attaching keeps the invariant\<close>

text \<open>A block stored in the database, as \<open>insert_block\<close> leaves it, with its transactions in range.\<close>

definition block_stored :: "ChainDB \<Rightarrow> BlockView \<Rightarrow> bool" where
  "block_stored db block \<longleftrightarrow>
     length (b_transactions block) \<le> 2 ^ 32 \<and> distinct (map tx_hash (b_transactions block)) \<and>
     \<not> is_frozen db (b_number block) \<and>
     (\<forall>i<length (b_transactions block).
        map_of (col_body db (b_hash block)) (word_of_nat i) = Some (b_transactions block ! i)) \<and>
     (\<forall>tx\<in>set (b_transactions block). length (outputs tx) \<le> 2 ^ 32 \<and> length (outputs tx) = length (outputs_data tx))"

lemma attach_block_info:
  assumes "distinct (map tx_hash (b_transactions block))" "i < length (b_transactions block)"
  shows "col_tx_info (attach_block db block) (tx_hash (b_transactions block ! i)) =
    Some \<lparr>ti_block_hash = b_hash block, ti_block_number = b_number block,
          ti_block_epoch = h_epoch (b_header block), ti_index = unat (word_of_nat i :: u32)\<rparr>"
proof -
  let ?f = "\<lambda>(index, tx). (tx_hash tx, \<lparr>ti_block_hash = b_hash block, ti_block_number = b_number block,
          ti_block_epoch = h_epoch (b_header block), ti_index = unat (word_of_nat index :: u32)\<rparr>)"
  have "map fst (map ?f (enumerate 0 (b_transactions block))) = map tx_hash (map snd (enumerate 0 (b_transactions block)))"
    by (simp add: split_def del: map_snd_enumerate)
  then have "distinct (map fst (rev (map ?f (enumerate 0 (b_transactions block)))))"
    using assms(1) by (simp add: rev_map [symmetric])
  moreover have "?f (i, b_transactions block ! i) \<in> set (rev (map ?f (enumerate 0 (b_transactions block))))"
    unfolding set_rev set_map using assms(2) by (intro imageI) (simp add: in_set_enumerate_eq)
  ultimately show ?thesis
    by (simp add: attach_block_eq map_add_def)
qed

lemma attach_block_info_other:
  assumes "h \<notin> tx_hash ` set (b_transactions block)"
  shows "col_tx_info (attach_block db block) h = col_tx_info db h"
proof -
  have "map_of (rev (map (\<lambda>(index, tx). (tx_hash tx, f index tx)) (enumerate 0 (b_transactions block)))) h = None" for f :: "nat \<Rightarrow> TransactionView \<Rightarrow> TransactionInfo"
    using assms by (auto simp: map_of_eq_None_iff in_set_enumerate_eq image_iff)
  then show ?thesis by (simp add: attach_block_eq map_add_def)
qed

text \<open>Every new cell is the entry its transaction leads to once the block is attached.\<close>

lemma undo_new_cell:
  assumes "block_stored db block" "(p, e, d) \<in> set (new_cells data_hash block)"
  shows "undo_dead data_hash (attach_block db block) p = Some (Some (p, e, d))"
proof -
  let ?info = "\<lambda>i. \<lparr>ti_block_hash = b_hash block, ti_block_number = b_number block,
      ti_block_epoch = h_epoch (b_header block), ti_index = i\<rparr>"
  obtain i tx j out data where 1: "(i, tx) \<in> set (enumerate 0 (b_transactions block))"
    "(j, out, data) \<in> set (enumerate 0 (outputs_with_data tx))" and p: "p = \<lparr>op_tx_hash = tx_hash tx, op_index = word_of_nat j\<rparr>"
    and item: "(p, e, d) = cell_entries data_hash p (?info i) out data"
    using assms(2) by (auto simp: new_cells_def cell_entries_def)
  have tx: "i < length (b_transactions block)" "tx = b_transactions block ! i"
    and j: "j < length (outputs tx)" "j < length (outputs_data tx)" "out = outputs tx ! j" "data = outputs_data tx ! j"
    using 1 by (auto simp: in_set_enumerate_eq outputs_with_data_def)
  have "length (b_transactions block) \<le> 2 ^ 32" and range: "\<forall>tx\<in>set (b_transactions block). length (outputs tx) \<le> 2 ^ 32 \<and>
      length (outputs tx) = length (outputs_data tx)"
    using assms(1) unfolding block_stored_def by blast+
  moreover have "length (outputs tx) \<le> 2 ^ 32"
    using bspec [OF range nth_mem [OF tx(1)]] tx(2) by simp
  ultimately have n: "unat (word_of_nat i :: u32) = i" "unat (word_of_nat j :: u32) = j"
    using tx j by (simp_all add: unat_of_nat)
  have "col_tx_info (attach_block db block) (tx_hash tx) = Some (?info i)"
    using attach_block_info [of block i db] assms(1) tx n by (simp add: block_stored_def)
  moreover have "\<not> is_frozen (attach_block db block) (b_number block)"
    "map_of (col_body (attach_block db block) (b_hash block)) (word_of_nat i) = Some tx"
    using assms(1) tx by (simp_all add: block_stored_def is_frozen_def attach_block_eq)
  ultimately have "get_transaction_with_info (attach_block db block) (tx_hash tx) = Some (Some (tx, ?info i))"
    by (simp add: get_transaction_with_info_def get_transaction_info_def body_transaction_def)
  moreover have "output_with_data tx j = Some (Some (out, data))"
    using j by (simp add: output_with_data_def get_nth_def)
  ultimately have "undo_dead data_hash (attach_block db block) p = Some (Some (cell_entries data_hash p (?info i) out data))"
    by (simp add: undo_dead_def p n)
  then show ?thesis by (simp only: item)
qed

lemma map_of_items:
  assumes "(p, e, d) \<in> set xs" "\<And>e' d'. (p, e', d') \<in> set xs \<Longrightarrow> e' = e \<and> d' = d"
  shows "map_of (rev (map (\<lambda>(p, e, d). (p, f e d)) xs)) p = Some (f e d)"
proof -
  have "p \<in> fst ` set (rev (map (\<lambda>(p, e, d). (p, f e d)) xs))"
    using assms(1) by force
  then obtain v where v: "map_of (rev (map (\<lambda>(p, e, d). (p, f e d)) xs)) p = Some v"
    by (metis map_of_eq_None_iff not_None_eq)
  then obtain e' d' where "(p, e', d') \<in> set xs" "v = f e' d'"
    by (auto dest!: map_of_SomeD)
  with v assms(2) [of e' d'] show ?thesis by simp
qed

lemma new_cells_at:
  assumes "block_stored db block" "(p, e, d) \<in> set (new_cells data_hash block)"
  shows "map_of (rev (map (\<lambda>(p, e, d). (p, f e d)) (new_cells data_hash block))) p = Some (f e d)"
proof (rule map_of_items [OF assms(2)])
  fix e' d' assume "(p, e', d') \<in> set (new_cells data_hash block)"
  from undo_new_cell [OF assms(1) this] undo_new_cell [OF assms] show "e' = e \<and> d' = d" by simp
qed

lemma new_cells_absent:
  assumes "\<And>e d. (p, e, d) \<notin> set (new_cells data_hash block)"
  shows "map_of (rev (map (\<lambda>(p, e, d). (p, f e d)) (new_cells data_hash block))) p = None"
  using assms by (auto simp: map_of_eq_None_iff)

lemma attached_columns:
  "col_cell (attach_block_cell data_hash db block) = (col_cell db ++
     map_of (rev (map (\<lambda>(p, e, d). (p, e)) (new_cells data_hash block)))) |` (- set (dead_points block))"
  "col_cell_data (attach_block_cell data_hash db block) = (col_cell_data db ++
     map_of (rev (map (\<lambda>(p, e, d). (p, d)) (new_cells data_hash block)))) |` (- set (dead_points block))"
  "col_cell_data_hash (attach_block_cell data_hash db block) = (col_cell_data_hash db ++
     map_of (rev (map (\<lambda>(p, e, d). (p, map_option cde_output_data_hash d)) (new_cells data_hash block))))
     |` (- set (dead_points block))"
  "col_cell (attach_block db block) = col_cell db" "col_cell_data (attach_block db block) = col_cell_data db"
  "col_cell_data_hash (attach_block db block) = col_cell_data_hash db"
  by (simp_all add: attach_block_cell_def delete_cells_eq insert_cells_eq attach_block_eq)

lemma undo_dead_attach_cell [simp]: "undo_dead data_hash (attach_block_cell dh db block) = undo_dead data_hash db"
  by (simp add: attach_block_cell_def delete_cells_eq insert_cells_eq)

text \<open>What was on the chain before a block is found there after it too.\<close>

lemma undo_dead_attach_old:
  assumes "attachable db block" "undo_dead data_hash db p = Some (Some c)"
  shows "undo_dead data_hash (attach_block db block) p = Some (Some c)"
proof -
  have "op_tx_hash p \<notin> tx_hash ` set (b_transactions block)"
    using assms undo_dead_fresh [of db p data_hash] by (auto simp: attachable_def)
  then have "undo_dead data_hash (attach_block db block) p = undo_dead data_hash db p"
    by (intro undo_dead_cong attach_block_info_other) (simp_all add: attach_block_eq)
  then show ?thesis using assms(2) by simp
qed

lemma attach_keeps_cells_ok:
  assumes "cells_ok data_hash db" "block_stored db block" "attachable db block"
  shows "cells_ok data_hash (attach_block_cell data_hash (attach_block db block) block)" (is "cells_ok _ ?R")
  unfolding cells_ok_def
proof (intro conjI allI impI)
  fix p e assume e: "col_cell ?R p = Some e"
  have p: "p \<notin> set (dead_points block)"
  proof
    assume "p \<in> set (dead_points block)"
    with e show False by (simp add: attached_columns)
  qed
  show "\<exists>d. undo_dead data_hash ?R p = Some (Some (p, e, d)) \<and> col_cell_data ?R p = Some d \<and>
      col_cell_data_hash ?R p = Some (map_option cde_output_data_hash d)"
  proof (cases "\<exists>e' d'. (p, e', d') \<in> set (new_cells data_hash block)")
    case True
    then obtain e' d' where new: "(p, e', d') \<in> set (new_cells data_hash block)" by blast
    note at = new_cells_at [OF assms(2) new, of "\<lambda>e d. e"] new_cells_at [OF assms(2) new, of "\<lambda>e d. d"]
      new_cells_at [OF assms(2) new, of "\<lambda>e d. map_option cde_output_data_hash d"]
    then show ?thesis using e p undo_new_cell [OF assms(2) new] by (simp add: attached_columns)
  next
    case False
    then have fresh: "(p, e', d') \<notin> set (new_cells data_hash block)" for e' d' by blast
    note absent = new_cells_absent [OF fresh, of "\<lambda>e d. e"] new_cells_absent [OF fresh, of "\<lambda>e d. d"]
      new_cells_absent [OF fresh, of "\<lambda>e d. map_option cde_output_data_hash d"]
    then have "col_cell db p = Some e" using e p by (simp add: attached_columns map_add_def)
    then obtain d where "undo_dead data_hash db p = Some (Some (p, e, d))" "col_cell_data db p = Some d"
      "col_cell_data_hash db p = Some (map_option cde_output_data_hash d)"
      using assms(1) unfolding cells_ok_def by blast
    then show ?thesis
      using absent p undo_dead_attach_old [OF assms(3)] by (simp add: attached_columns map_add_def)
  qed
next
  fix p assume none: "col_cell ?R p = None"
  have old: "col_cell db p = None \<Longrightarrow> col_cell_data db p = None \<and> col_cell_data_hash db p = None"
    using assms(1) by (simp add: cells_ok_def)
  show "col_cell_data ?R p = None" "col_cell_data_hash ?R p = None"
  proof (atomize (full), cases "p \<in> set (dead_points block)")
    case True
    then show "col_cell_data ?R p = None \<and> col_cell_data_hash ?R p = None" by (simp add: attached_columns)
  next
    case False
    have fresh: "(p, e', d') \<notin> set (new_cells data_hash block)" for e' d'
    proof
      assume "(p, e', d') \<in> set (new_cells data_hash block)"
      from new_cells_at [OF assms(2) this, of "\<lambda>e d. e"] none False show False
        by (simp add: attached_columns map_add_def)
    qed
    note absent = new_cells_absent [OF fresh, of "\<lambda>e d. e"] new_cells_absent [OF fresh, of "\<lambda>e d. d"]
      new_cells_absent [OF fresh, of "\<lambda>e d. map_option cde_output_data_hash d"]
    then show "col_cell_data ?R p = None \<and> col_cell_data_hash ?R p = None"
      using none False old by (simp add: attached_columns map_add_def)
  qed
qed

subsection \<open>Ancestors\<close>

text \<open>Headers linked by parent hash and number down to the genesis block, and a main-chain index that
  agrees with the links: the reference for the lookup is to follow the links.\<close>

definition headers_linked :: "ChainDB \<Rightarrow> bool" where
  "headers_linked db \<longleftrightarrow>
     (\<forall>hash header. get_block_header db hash = Some header \<and> h_number header > 0 \<longrightarrow>
        (\<exists>parent. get_block_header db (h_parent_hash header) = Some parent \<and> unat (h_number header) = unat (h_number parent) + 1))"

definition index_linked :: "ChainDB \<Rightarrow> bool" where
  "index_linked db \<longleftrightarrow>
     (\<forall>hash header. is_main_chain db hash \<and> get_block_header db hash = Some header \<longrightarrow>
        get_block_hash db (h_number header) = Some hash \<and>
        (h_number header > 0 \<longrightarrow> is_main_chain db (h_parent_hash header)))"

fun follow_parents :: "ChainDB \<Rightarrow> nat \<Rightarrow> HeaderView \<Rightarrow> HeaderView option" where
  "follow_parents db 0 header = Some header"
| "follow_parents db (Suc n) header = Option.bind (get_block_header db (h_parent_hash header)) (follow_parents db n)"

lemma parent_linked:
  assumes "headers_linked db" "get_block_header db hash = Some header" "unat (h_number header) = Suc n"
  obtains parent where "get_block_header db (h_parent_hash header) = Some parent" "unat (h_number parent) = n"
proof -
  have "h_number header > 0" using assms(3) by (simp add: word_less_nat_alt)
  with assms obtain parent where "get_block_header db (h_parent_hash header) = Some parent"
    "unat (h_number header) = unat (h_number parent) + 1"
    unfolding headers_linked_def by blast
  with assms(3) that show thesis by simp
qed

lemma main_chain_ancestor:
  assumes "headers_linked db" "index_linked db" "is_main_chain db hash" "get_block_header db hash = Some header"
    and "unat (h_number header) = unat number + d"
  shows "Option.bind (get_block_hash db number) (get_block_header db) = follow_parents db d header"
  using assms(3-5)
proof (induction d arbitrary: hash header)
  case 0
  then have "h_number header = number" by (simp add: word_unat_eq_iff)
  then have "get_block_hash db number = Some hash" using 0 assms(2) unfolding index_linked_def by blast
  then show ?case using 0 by simp
next
  case (Suc d)
  have n: "unat (h_number header) = Suc (unat number + d)" using Suc.prems by simp
  then obtain parent where p: "get_block_header db (h_parent_hash header) = Some parent" "unat (h_number parent) = unat number + d"
    using parent_linked [OF assms(1) Suc.prems(2)] by blast
  have "h_number header > 0" using n by (simp add: word_less_nat_alt)
  then have "is_main_chain db (h_parent_hash header)" using Suc.prems assms(2) unfolding index_linked_def by blast
  from Suc.IH [OF this p] p(1) show ?case by simp
qed

lemma get_ancestor_follows:
  assumes "headers_linked db" "index_linked db" "get_block_header db base = Some header"
    and "unat (h_number header) = unat number + d"
  shows "get_ancestor db base number = Some (follow_parents db d header)"
  using assms(3,4)
proof (induction d arbitrary: base header)
  case 0
  then have "h_number header = number" by (simp add: word_unat_eq_iff)
  then show ?case using 0 by (subst get_ancestor.simps) simp
next
  case (Suc d)
  have n: "number < h_number header" "\<not> number > h_number header" "number \<noteq> h_number header"
    using Suc.prems(2) by (auto simp: word_less_nat_alt)
  show ?case
  proof (cases "is_main_chain db base")
    case True
    then show ?thesis
      using n Suc.prems main_chain_ancestor [OF assms(1,2) True Suc.prems(1), of number "Suc d"]
      by (subst get_ancestor.simps) simp
  next
    case False
    obtain parent where p: "get_block_header db (h_parent_hash header) = Some parent" "unat (h_number parent) = unat number + d"
      using parent_linked [OF assms(1) Suc.prems(1), of "unat number + d"] Suc.prems(2) by auto
    show ?thesis
      using n False Suc.prems(1) Suc.IH [OF p] p(1) by (subst get_ancestor.simps) simp
  qed
qed

section \<open>Properties\<close>

text \<open>Nothing of a block is in the database yet.\<close>

definition block_absent :: "ChainDB \<Rightarrow> byte32 \<Rightarrow> bool" where
  "block_absent db hash \<longleftrightarrow> col_header db hash = None \<and> col_body db hash = [] \<and> col_extension db hash = None \<and>
     cache_headers db hash = None \<and> cache_uncles db hash = None \<and> cache_proposals db hash = None \<and>
     cache_extensions db hash = None"

lemma insert_block_get_block:
  assumes "block_absent db (b_hash block)" "insert_block db block = Inr db'"
    and "\<not> is_frozen db (b_number block)" "length (b_transactions block) \<le> 2 ^ 32"
  shows "get_block db' (b_hash block) = Some (Some block)"
    and "col_body db' (b_hash block) = map (\<lambda>(i, tx). (word_of_nat i, tx)) (enumerate 0 (b_transactions block))"
    and "is_frozen db' = is_frozen db" and "col_header db' (b_hash block) = Some (b_header block)"
proof -
  have fold: "col_body db' (b_hash block) = map (\<lambda>(i, tx). (word_of_nat i, tx)) (enumerate 0 (b_transactions block))"
    using assms insert_block_body [OF assms(4)] by (auto simp: insert_block_def Let_def block_absent_def)
  have frozen: "is_frozen db' = is_frozen db"
    using assms by (auto simp: insert_block_def Let_def block_absent_def is_frozen_def fun_eq_iff)
  have body: "get_block_body db' (b_hash block) = b_transactions block"
    unfolding get_block_body_def fold by (simp add: comp_def split_def)
  have unfrozen: "\<not> is_frozen db' (b_number block)" using frozen assms(3) by simp
  have cols: "col_header db' (b_hash block) = Some (b_header block)" "col_block_uncle db' (b_hash block) = Some (b_uncles block)"
    "col_proposal_ids db' (b_hash block) = Some (b_proposals block)" "col_extension db' (b_hash block) = b_extension block"
    "store_cache_ok db' (b_hash block)"
    using assms by (auto simp: insert_block_def Let_def block_absent_def store_cache_ok_def split: option.splits)
  have "get_block db' (b_hash block) = get_unfrozen_block db' (b_hash block)"
    using cols(1,5) unfrozen by (intro get_block_unfrozen) auto
  then show "get_block db' (b_hash block) = Some (Some block)"
    using cols body by (simp add: get_unfrozen_block_def new_unchecked_def)
  show "is_frozen db' = is_frozen db" "col_header db' (b_hash block) = Some (b_header block)"
    "col_body db' (b_hash block) = map (\<lambda>(i, tx). (word_of_nat i, tx)) (enumerate 0 (b_transactions block))"
    using frozen cols(1) fold by simp_all
qed

text \<open>C27. A block that is not in the database reads back exactly as it was inserted. Inserting it a
  second time is accepted and changes nothing, and inserting a block with the same hash but other data is refused.\<close>

theorem insert_block_round_trip:
  assumes "block_absent db (b_hash block)" and "insert_block db block = Inr db'"
    and "\<not> is_frozen db (b_number block)" and "length (b_transactions block) \<le> 2 ^ 32"
  shows "get_block db' (b_hash block) = Some (Some block) \<and> insert_block db' block = Inr db' \<and>
    (b_hash other = b_hash block \<and> block_data other \<noteq> block_data block \<longrightarrow>
       insert_block db' other = Inl (DifferentBlockBody (b_hash block)))"
  using insert_block_get_block [OF assms]
  by (simp add: insert_block_def ensure_block_body_identical_def)

definition ex_db :: ChainDB where
  "ex_db = \<lparr>col_index = Map.empty, col_index_hash = Map.empty, col_header = Map.empty, col_body = (\<lambda>_. []),
     col_block_uncle = Map.empty, col_extension = Map.empty, col_number_hash = Map.empty, col_proposal_ids = Map.empty,
     col_ext = Map.empty, col_tx_info = Map.empty, col_uncles = Map.empty, col_cell = Map.empty,
     col_cell_data = Map.empty, col_cell_data_hash = Map.empty, col_block_epoch = Map.empty, col_epoch = Map.empty,
     col_epoch_number = Map.empty, col_block_filter = Map.empty, col_block_filter_hash = Map.empty,
     col_chain_root_mmr = Map.empty, meta_latest_built_filter_data = None, meta_tip = None, meta_current_epoch = None, cache_headers = Map.empty,
     cache_cell_data = Map.empty, cache_cell_data_hash = Map.empty, cache_proposals = Map.empty,
     cache_tx_hashes = Map.empty, cache_uncles = Map.empty, cache_extensions = Map.empty,
     freezer_number = None, freezer_retrieve = (\<lambda>_. Some None)\<rparr>"

theorem insert_block_round_trip_witness:
  "\<exists>db'. insert_block ex_db ex_block = Inr db' \<and> get_block db' (b_hash ex_block) = Some (Some ex_block)"
proof -
  have "block_absent ex_db (b_hash ex_block)" by (simp add: block_absent_def ex_db_def)
  moreover from this obtain db' where "insert_block ex_db ex_block = Inr db'"
    by (simp add: insert_block_def Let_def block_absent_def)
  ultimately show ?thesis
    using insert_block_round_trip [of ex_db ex_block db' ex_block] by (auto simp: ex_db_def is_frozen_def ex_block_def)
qed

text \<open>C28. On a store whose headers are linked and whose main-chain index agrees with the links, the
  ancestor lookup always returns, and it returns the header that following parent links from the
  base finds at the given height, also where it takes the short cut through the index.\<close>

theorem ancestor_follows_links:
  assumes "headers_linked db" and "index_linked db" and "get_block_header db base = Some header"
    and "number \<le> h_number header"
  shows "get_ancestor db base number = Some (follow_parents db (unat (h_number header) - unat number) header)"
  using assms by (intro get_ancestor_follows) (simp_all add: word_le_nat_alt)

definition ex_chain_db :: ChainDB where
  "ex_chain_db = ex_db\<lparr>col_header := [[0] \<mapsto> ex_header\<lparr>h_number := 0, h_hash := [0]\<rparr>,
      [1] \<mapsto> ex_header\<lparr>h_number := 1, h_parent_hash := [0], h_hash := [1]\<rparr>]\<rparr>"

theorem ancestor_follows_links_witness:
  "get_ancestor ex_chain_db [1] 0 = Some (Some (ex_header\<lparr>h_number := 0, h_hash := [0]\<rparr>))"
proof -
  have h: "get_block_header ex_chain_db = [[0] \<mapsto> ex_header\<lparr>h_number := 0, h_hash := [0]\<rparr>,
      [1] \<mapsto> ex_header\<lparr>h_number := 1, h_parent_hash := [0], h_hash := [1]\<rparr>]"
    by (simp add: get_block_header_def ex_chain_db_def ex_db_def fun_eq_iff)
  have "headers_linked ex_chain_db" by (auto simp: headers_linked_def h)
  moreover have "index_linked ex_chain_db"
    by (simp add: index_linked_def is_main_chain_def ex_chain_db_def ex_db_def)
  ultimately show ?thesis
    using ancestor_follows_links [of ex_chain_db "[1]" "ex_header\<lparr>h_number := 1, h_parent_hash := [0], h_hash := [1]\<rparr>" 0]
    by (simp add: h)
qed

text \<open>C29. Deleting a block does not reach the caches: when its header, uncles, proposals and extension
  are cached, the block still exists for readers after it was deleted, and reading it returns its
  header with an empty body.\<close>

theorem deleted_block_still_read:
  assumes "cache_headers db (b_hash block) = Some (b_header block)" and "cache_uncles db (b_hash block) = Some (b_uncles block)"
    and "cache_proposals db (b_hash block) = Some (b_proposals block)" and "cache_extensions db (b_hash block) = Some (b_extension block)"
    and "\<not> is_frozen db (b_number block)"
    and "col_body db (b_hash block) = map (\<lambda>(i, tx). (word_of_nat i, tx)) (enumerate 0 (b_transactions block))"
  shows "block_exists (delete_block db block) (b_hash block) \<and>
    get_block (delete_block db block) (b_hash block) = Some (Some (block\<lparr>b_transactions := []\<rparr>))"
proof -
  have "filter (\<lambda>(i, _). i \<notin> set (map word_of_nat [0..<length (b_transactions block)])) (col_body db (b_hash block)) = []"
    unfolding assms(6) by (auto simp: filter_empty_conv in_set_enumerate_eq)
  then have "col_body (delete_block db block) (b_hash block) = []" by (simp add: delete_block_def Let_def)
  moreover have "is_frozen (delete_block db block) = is_frozen db"
    by (simp add: delete_block_def Let_def is_frozen_def fun_eq_iff)
  ultimately show ?thesis
    using assms(1-5)
    by (simp add: block_exists_def get_block_def get_unfrozen_parts_def get_block_header_def get_block_uncles_def
        get_block_proposal_txs_ids_def get_block_extension_def get_block_body_def new_unchecked_def delete_block_def Let_def)
qed

definition ex_cached_db :: ChainDB where
  "ex_cached_db = ex_db\<lparr>cache_headers := [b_hash ex_block \<mapsto> b_header ex_block],
     cache_uncles := [b_hash ex_block \<mapsto> b_uncles ex_block], cache_proposals := [b_hash ex_block \<mapsto> b_proposals ex_block],
     cache_extensions := [b_hash ex_block \<mapsto> b_extension ex_block],
     col_body := (\<lambda>_. map (\<lambda>(i, tx). (word_of_nat i, tx)) (enumerate 0 (b_transactions ex_block)))\<rparr>"

theorem deleted_block_still_read_witness:
  "get_block (delete_block ex_cached_db ex_block) (b_hash ex_block) = Some (Some (ex_block\<lparr>b_transactions := []\<rparr>))"
  using deleted_block_still_read [of ex_cached_db ex_block]
  by (simp add: ex_cached_db_def ex_db_def is_frozen_def)

end
