(* ===== verification/Epoch_Adjust.thy ===== *)
theory Epoch_Adjust
  imports Dao Difficulty Store
begin

text \<open>
  The schedule of epochs: \<open>EpochProvider::get_block_epoch\<close> (\<open>traits/src/epoch_provider.rs\<close>) and the
  dynamic difficulty adjustment \<open>Consensus::next_epoch_ext\<close> (\<open>spec/src/consensus.rs\<close>). A result has
  two levels of \<open>option\<close> where the code returns an option: the outer \<open>None\<close> is a panic (overflow of
  a checked operator, a division by zero, an \<open>expect\<close>).

  The lemmas show that, whatever the measured durations and uncles, the length of every epoch stays within the
  consensus bounds and within a factor of two of the epoch before, the hash rate estimate moves by
  at most a factor of two, and the primary reward of every epoch is the one the halving schedule gives it.
\<close>

section \<open>The epoch of a block\<close>

datatype BlockEpoch = TailBlock EpochExt u64 u64 | NonTailBlock EpochExt

definition block_epoch_ext :: "BlockEpoch \<Rightarrow> EpochExt" where
  "block_epoch_ext be = (case be of TailBlock epoch _ _ \<Rightarrow> epoch | NonTailBlock epoch \<Rightarrow> epoch)"

definition provider_epoch_ext :: "ChainDB \<Rightarrow> HeaderView \<Rightarrow> EpochExt option" where
  "provider_epoch_ext db header = Option.bind (get_block_epoch_index db (h_hash header)) (get_epoch_ext db)"

definition get_block_epoch :: "ChainDB \<Rightarrow> HeaderView \<Rightarrow> BlockEpoch option option" where
  "get_block_epoch db header =
     (case provider_epoch_ext db header of
       None \<Rightarrow> Some None
     | Some epoch \<Rightarrow>
         (let tail_number = Option.bind (checked_add (ee_start_number epoch) (ee_length epoch)) (\<lambda>number. checked_sub number 1)
          in if Some (h_number header) \<noteq> tail_number then Some (Some (NonTailBlock epoch))
             else
               (case (if ee_is_genesis epoch then get_block_hash db 0 else Some (last_block_hash_in_previous_epoch epoch)) of
                 None \<Rightarrow> None
               | Some last_hash \<Rightarrow>
                   (case (get_block_ext db (h_hash header), get_block_ext db last_hash, get_block_header db last_hash) of
                     (Some ext, Some last_ext, Some last_header) \<Rightarrow>
                       map_option (\<lambda>epoch_uncles_count.
                           Some (TailBlock epoch epoch_uncles_count
                             (saturating_sub (h_timestamp header) (h_timestamp last_header))))
                         (checked_sub (be_total_uncles_count ext) (be_total_uncles_count last_ext))
                   | _ \<Rightarrow> None))))"

section \<open>Difficulty adjustment\<close>

datatype NextBlockEpoch = HeadBlock EpochExt | NonHeadBlock EpochExt

definition next_epoch :: "NextBlockEpoch \<Rightarrow> EpochExt" where
  "next_epoch n = (case n of HeadBlock epoch_ext \<Rightarrow> epoch_ext | NonHeadBlock epoch_ext \<Rightarrow> epoch_ext)"

definition is_head :: "NextBlockEpoch \<Rightarrow> bool" where
  "is_head n = (case n of HeadBlock _ \<Rightarrow> True | NonHeadBlock _ \<Rightarrow> False)"

definition TAU :: u64 where "TAU = 2"
definition MILLISECONDS_IN_A_SECOND :: u64 where "MILLISECONDS_IN_A_SECOND = 1000"
definition MIN_BLOCK_INTERVAL :: u64 where "MIN_BLOCK_INTERVAL = 8"
definition MAX_BLOCK_INTERVAL :: u64 where "MAX_BLOCK_INTERVAL = 48"
definition DEFAULT_EPOCH_DURATION_TARGET :: u64 where "DEFAULT_EPOCH_DURATION_TARGET = 4 * 60 * 60"
definition MAX_EPOCH_LENGTH :: u64 where "MAX_EPOCH_LENGTH = DEFAULT_EPOCH_DURATION_TARGET div MIN_BLOCK_INTERVAL"
definition MIN_EPOCH_LENGTH :: u64 where "MIN_EPOCH_LENGTH = DEFAULT_EPOCH_DURATION_TARGET div MAX_BLOCK_INTERVAL"

definition permanent_difficulty :: "Consensus \<Rightarrow> bool" where
  "permanent_difficulty self \<longleftrightarrow> c_pow_is_dummy self \<and> c_permanent_difficulty_in_dummy self"

text \<open>\<open>None\<close>: division by a zero halving interval.\<close>

definition primary_epoch_reward :: "Consensus \<Rightarrow> u64 \<Rightarrow> capacity option" where
  "primary_epoch_reward self epoch_number =
     (if c_primary_epoch_reward_halving_interval self = 0 then None
      else (let halvings = epoch_number div c_primary_epoch_reward_halving_interval self
            in Some (if halvings > 63 then shannons 0
                     else shannons (drop_bit (unat halvings) (as_u64 (c_initial_primary_epoch_reward self))))))"

definition is_multiple_of :: "u64 \<Rightarrow> u64 \<Rightarrow> bool" where
  "is_multiple_of a b \<longleftrightarrow> (if b = 0 then a = 0 else a mod b = 0)"

definition primary_reward :: "EpochExt \<Rightarrow> capacity option" where
  "primary_reward self = (case checked_primary_reward self of Inl _ \<Rightarrow> None | Inr c \<Rightarrow> Some c)"

definition primary_epoch_reward_of_next_epoch :: "Consensus \<Rightarrow> EpochExt \<Rightarrow> capacity option" where
  "primary_epoch_reward_of_next_epoch self epoch =
     (case checked_add (ee_number epoch) 1 of
       None \<Rightarrow> None
     | Some n \<Rightarrow>
         (if \<not> is_multiple_of n (c_primary_epoch_reward_halving_interval self) then primary_reward epoch
          else primary_epoch_reward self n))"

definition bounding_hash_rate :: "u256_lib \<Rightarrow> u256 \<Rightarrow> u256 \<Rightarrow> u256" where
  "bounding_hash_rate L last_epoch_hash_rate last_epoch_previous_hash_rate =
     (if last_epoch_previous_hash_rate = 0 then last_epoch_hash_rate
      else (let lower_bound = u_div L last_epoch_previous_hash_rate (ucast TAU);
                upper_bound = u_mul L last_epoch_previous_hash_rate (ucast TAU)
            in if last_epoch_hash_rate < lower_bound then lower_bound
               else if last_epoch_hash_rate > upper_bound then upper_bound
               else last_epoch_hash_rate))"

definition bounding_epoch_length :: "u64 \<Rightarrow> u64 \<Rightarrow> (u64 \<times> bool) option" where
  "bounding_epoch_length len last_epoch_length =
     map_option (\<lambda>doubled.
         let max_length = min MAX_EPOCH_LENGTH doubled;
             min_length = max MIN_EPOCH_LENGTH (last_epoch_length div TAU)
         in if len > max_length then (max_length, True)
            else if len < min_length then (min_length, True)
            else (len, False))
       (checked_mul last_epoch_length TAU)"

text \<open>(1) The hash rate estimate; the sum of length and uncles is the argument \<open>blocks\<close>.\<close>

definition adjusted_hash_rate :: "u256_lib \<Rightarrow> u256 \<Rightarrow> u64 \<Rightarrow> u256 \<Rightarrow> u256 \<Rightarrow> u256" where
  "adjusted_hash_rate L last_difficulty blocks last_epoch_duration previous_hash_rate =
     max (bounding_hash_rate L (u_div L (u_mul L last_difficulty (ucast blocks)) last_epoch_duration) previous_hash_rate) 1"

text \<open>(2) The length of the next epoch, and whether a bound was hit.\<close>

definition next_epoch_length ::
    "u256_lib \<Rightarrow> u256_bits \<Rightarrow> Consensus \<Rightarrow> EpochExt \<Rightarrow> u64 \<Rightarrow> u256 \<Rightarrow> RationalU256 \<Rightarrow> (u64 \<times> bool) option" where
  "next_epoch_length L B self epoch epoch_uncles_count last_epoch_duration last_orphan_rate =
     (if epoch_uncles_count = 0
      then map_option (\<lambda>doubled. (min MAX_EPOCH_LENGTH doubled, True)) (checked_mul (ee_length epoch) TAU)
      else
        (let orphan_rate_target = c_orphan_rate_target self;
             numerator = rat_mul_u256 L (rat_mul_u256 L
                 (rat_mul L orphan_rate_target (rat_add_u256 L last_orphan_rate 1))
                 (ucast (c_epoch_duration_target self))) (ucast (ee_length epoch));
             denominator = rat_mul_u256 L
                 (rat_mul L last_orphan_rate (rat_add_u256 L orphan_rate_target 1)) last_epoch_duration;
             raw_next_epoch_length = u_low64 B (rat_into_u256 L (rat_div L numerator denominator))
         in bounding_epoch_length raw_next_epoch_length (ee_length epoch)))"

text \<open>(3) The difficulty of the next epoch.\<close>

definition diff_denominator ::
    "u256_lib \<Rightarrow> Consensus \<Rightarrow> EpochExt \<Rightarrow> u256 \<Rightarrow> RationalU256 \<Rightarrow> u64 \<Rightarrow> bool \<Rightarrow> RationalU256 option" where
  "diff_denominator L self epoch last_epoch_duration last_orphan_rate next_length bound =
     (let next_u256 = (ucast next_length :: u256);
          ideal = rat_mul_u256 L (rat_add_u256 L (c_orphan_rate_target self) 1) next_u256
      in if \<not> bound then Some ideal
         else if rat_is_zero last_orphan_rate then rat_new L next_u256 1
         else
           (let recip = rat_saturating_sub_u256 L
                  (rat_div L
                    (rat_mul_u256 L (rat_mul_u256 L (rat_add_u256 L last_orphan_rate 1) (ucast (c_epoch_duration_target self)))
                      (ucast (ee_length epoch)))
                    (rat_mul_u256 L (rat_mul_u256 L last_orphan_rate last_epoch_duration) next_u256)) 1
            in if rat_is_zero recip then Some ideal
               else Some (rat_mul_u256 L (rat_add_u256 L (rat_div L rat_one recip) 1) next_u256)))"

definition next_epoch_diff :: "u256_lib \<Rightarrow> RationalU256 \<Rightarrow> RationalU256 \<Rightarrow> u256" where
  "next_epoch_diff L diff_numerator denominator =
     (if rat_cmp L diff_numerator denominator = Greater
      then rat_into_u256 L (rat_div L diff_numerator denominator) else 1)"

definition div_ceil :: "u64 \<Rightarrow> u64 \<Rightarrow> u64" where
  "div_ceil a b = a div b + (if a mod b \<noteq> 0 then 1 else 0)"

text \<open>The parts of the new epoch both modes set.\<close>

definition head_epoch :: "EpochExt \<Rightarrow> HeaderView \<Rightarrow> u64 \<Rightarrow> capacity \<Rightarrow> EpochExt option" where
  "head_epoch epoch header next_length primary =
     (if next_length = 0 then None
      else (case (checked_add (ee_number epoch) 1, checked_add (h_number header) 1) of
        (Some number, Some start_number) \<Rightarrow>
          Some (epoch\<lparr>base_block_reward := shannons (as_u64 primary div next_length),
                      remainder_reward := shannons (as_u64 primary mod next_length),
                      ee_number := number, last_block_hash_in_previous_epoch := h_hash header,
                      ee_start_number := start_number, ee_length := next_length\<rparr>)
      | _ \<Rightarrow> None))"

definition permanent_next_epoch :: "Consensus \<Rightarrow> HeaderView \<Rightarrow> EpochExt \<Rightarrow> EpochExt option" where
  "permanent_next_epoch self header epoch =
     Option.bind (primary_epoch_reward_of_next_epoch self epoch)
       (head_epoch epoch header (div_ceil (c_epoch_duration_target self) MIN_BLOCK_INTERVAL))"

definition adjusted_next_epoch ::
    "u256_lib \<Rightarrow> u256_bits \<Rightarrow> Consensus \<Rightarrow> HeaderView \<Rightarrow> EpochExt \<Rightarrow> u64 \<Rightarrow> u64 \<Rightarrow> EpochExt option" where
  "adjusted_next_epoch L B self header epoch epoch_uncles_count epoch_duration_in_milliseconds =
     (case (compact_to_difficulty B (h_compact_target header), checked_add (ee_length epoch) epoch_uncles_count) of
       (Some last_difficulty, Some blocks) \<Rightarrow>
         (let last_epoch_duration = ucast (max (epoch_duration_in_milliseconds div MILLISECONDS_IN_A_SECOND) 1);
              hash_rate = adjusted_hash_rate L last_difficulty blocks last_epoch_duration (previous_epoch_hash_rate epoch)
          in Option.bind (rat_new L (ucast epoch_uncles_count) (ucast (ee_length epoch))) (\<lambda>last_orphan_rate.
             Option.bind (next_epoch_length L B self epoch epoch_uncles_count last_epoch_duration last_orphan_rate)
               (\<lambda>(next_length, bound).
             Option.bind (rat_new L (u_mul L hash_rate (ucast (c_epoch_duration_target self))) 1) (\<lambda>diff_numerator.
             Option.bind (diff_denominator L self epoch last_epoch_duration last_orphan_rate next_length bound) (\<lambda>denominator.
             Option.bind (primary_epoch_reward_of_next_epoch self epoch) (\<lambda>primary.
             Option.bind (head_epoch epoch header next_length primary) (\<lambda>head.
             Option.bind (difficulty_to_compact B (next_epoch_diff L diff_numerator denominator)) (\<lambda>target.
               Some (head\<lparr>previous_epoch_hash_rate := hash_rate, ee_compact_target := target\<rparr>)))))))))
     | _ \<Rightarrow> None)"

definition next_epoch_ext ::
    "u256_lib \<Rightarrow> u256_bits \<Rightarrow> Consensus \<Rightarrow> HeaderView \<Rightarrow> BlockEpoch option option \<Rightarrow> NextBlockEpoch option option" where
  "next_epoch_ext L B self header block_epoch =
     (case block_epoch of
       None \<Rightarrow> None
     | Some None \<Rightarrow> Some None
     | Some (Some (NonTailBlock epoch)) \<Rightarrow> Some (Some (NonHeadBlock epoch))
     | Some (Some (TailBlock epoch epoch_uncles_count epoch_duration_in_milliseconds)) \<Rightarrow>
         map_option (\<lambda>e. Some (HeadBlock e))
           (if permanent_difficulty self then permanent_next_epoch self header epoch
            else adjusted_next_epoch L B self header epoch epoch_uncles_count epoch_duration_in_milliseconds))"

section \<open>Lemmas\<close>

lemma epoch_length_consts: "unat MAX_EPOCH_LENGTH = 1800" "unat MIN_EPOCH_LENGTH = 300" "unat TAU = 2"
  by (simp_all add: MAX_EPOCH_LENGTH_def MIN_EPOCH_LENGTH_def DEFAULT_EPOCH_DURATION_TARGET_def
      MIN_BLOCK_INTERVAL_def MAX_BLOCK_INTERVAL_def TAU_def unat_div_distrib)

lemma unat_min_max: "unat (min a b) = min (unat a) (unat b)" "unat (max a b) = max (unat a) (unat b)"
  for a b :: "'a::len word"
  by (auto simp: min_def max_def word_le_nat_alt)

text \<open>Dampening keeps a length within the bounds and within a factor of two of the last one.\<close>

definition length_in_bounds :: "u64 \<Rightarrow> bool" where
  "length_in_bounds len \<longleftrightarrow> 300 \<le> unat len \<and> unat len \<le> 1800"

definition within_factor_two :: "'a::len word \<Rightarrow> 'a word \<Rightarrow> bool" where
  "within_factor_two a b \<longleftrightarrow> unat b div 2 \<le> unat a \<and> unat a \<le> 2 * unat b"

lemma bounding_epoch_length_bounds:
  assumes "bounding_epoch_length len prev = Some (r, bound)" "length_in_bounds prev"
  shows "length_in_bounds r \<and> within_factor_two r prev"
proof -
  obtain d where d: "unat d = unat prev * 2"
    and r: "r = (if len > min MAX_EPOCH_LENGTH d then min MAX_EPOCH_LENGTH d
                 else if len < max MIN_EPOCH_LENGTH (prev div TAU) then max MIN_EPOCH_LENGTH (prev div TAU) else len)"
    using assms(1)
    by (auto simp: bounding_epoch_length_def checked_mul_Some epoch_length_consts Let_def split: if_splits)
  have "unat (prev div TAU) = unat prev div 2" by (simp add: unat_div_distrib epoch_length_consts)
  then show ?thesis
    using assms(2) d unfolding r length_in_bounds_def within_factor_two_def
    by (auto simp: word_less_nat_alt unat_min_max epoch_length_consts)
qed

lemma next_epoch_length_bounds:
  assumes "next_epoch_length L B self epoch uncles duration rate = Some (r, bound)" "length_in_bounds (ee_length epoch)"
  shows "length_in_bounds r \<and> within_factor_two r (ee_length epoch)"
proof (cases "uncles = 0")
  case True
  then obtain d where "unat d = unat (ee_length epoch) * 2" "r = min MAX_EPOCH_LENGTH d"
    using assms(1) by (auto simp: next_epoch_length_def checked_mul_Some epoch_length_consts)
  then show ?thesis
    using assms(2) by (auto simp: length_in_bounds_def within_factor_two_def unat_min_max epoch_length_consts)
next
  case False
  then show ?thesis
    using assms bounding_epoch_length_bounds by (auto simp: next_epoch_length_def Let_def)
qed

lemma bounding_hash_rate_bounds:
  assumes "u256_ok L" "prev \<noteq> 0" "unat prev < 2 ^ 255"
  shows "within_factor_two (bounding_hash_rate L rate prev) prev"
proof -
  have "unat (ucast TAU :: u256) = 2" by (simp add: epoch_length_consts)
  then have "unat (u_div L prev (ucast TAU)) = unat prev div 2" "unat (u_mul L prev (ucast TAU)) = unat prev * 2"
    using assms by (simp_all add: u_div_nat u_mul_nat)
  then show ?thesis
    using assms(2) by (auto simp: bounding_hash_rate_def Let_def within_factor_two_def word_less_nat_alt)
qed

text \<open>The rewards of the head of an epoch add up to the primary reward it was given.\<close>

lemma head_epoch_fields:
  assumes "head_epoch epoch header len primary = Some e"
  shows "ee_length e = len" "unat (ee_number e) = unat (ee_number epoch) + 1"
    "unat (ee_start_number e) = unat (h_number header) + 1" "last_block_hash_in_previous_epoch e = h_hash header"
    "primary_reward e = Some primary" "unat (as_u64 (remainder_reward e)) < unat len"
proof -
  obtain number start where 1: "len \<noteq> 0" "checked_add (ee_number epoch) 1 = Some number" "checked_add (h_number header) 1 = Some start"
    and e: "e = epoch\<lparr>base_block_reward := shannons (as_u64 primary div len), remainder_reward := shannons (as_u64 primary mod len),
      ee_number := number, last_block_hash_in_previous_epoch := h_hash header, ee_start_number := start, ee_length := len\<rparr>"
    using assms by (auto simp: head_epoch_def split: if_splits option.splits)
  show "ee_length e = len" "last_block_hash_in_previous_epoch e = h_hash header" by (simp_all add: e)
  show "unat (ee_number e) = unat (ee_number epoch) + 1" "unat (ee_start_number e) = unat (h_number header) + 1"
    using 1 by (simp_all add: e checked_add_Some)
  have len: "unat len \<noteq> 0" using 1(1) by (simp add: unat_zero_iff_word)
  then show "unat (as_u64 (remainder_reward e)) < unat len"
    by (simp add: e shannons_def unat_mod_distrib)
  let ?q = "as_u64 primary div len" and ?r = "as_u64 primary mod len"
  have sum: "unat ?q * unat len + unat ?r = unat (as_u64 primary)"
    by (simp add: unat_div_distrib unat_mod_distrib)
  have "unat ?q * unat len < 2 ^ 64" using sum unat_lt2p [of "as_u64 primary"] by simp
  then obtain m where m: "checked_mul ?q len = Some m" "unat m = unat ?q * unat len"
    by (cases "checked_mul ?q len") (auto simp: checked_mul_None checked_mul_Some)
  then have "checked_add m ?r = Some (as_u64 primary)" using sum by (simp add: checked_add_Some)
  with m(1) show "primary_reward e = Some primary"
    by (simp add: primary_reward_def checked_primary_reward_def e shannons_def)
qed

lemma adjusted_next_epoch_Some:
  assumes "adjusted_next_epoch L B self header epoch uncles duration = Some e"
  obtains head primary len d diff blocks rate bound target where
    "primary_epoch_reward_of_next_epoch self epoch = Some primary" "head_epoch epoch header len primary = Some head"
    "next_epoch_length L B self epoch uncles d rate = Some (len, bound)"
    "e = head\<lparr>previous_epoch_hash_rate := adjusted_hash_rate L diff blocks d (previous_epoch_hash_rate epoch),
       ee_compact_target := target\<rparr>"
proof -
  obtain diff blocks where 1: "compact_to_difficulty B (h_compact_target header) = Some diff"
    "checked_add (ee_length epoch) uncles = Some blocks"
    using assms by (auto simp: adjusted_next_epoch_def split: option.splits)
  show ?thesis
    using assms by (auto simp: adjusted_next_epoch_def 1 Let_def bind_eq_Some_conv intro: that)
qed

text \<open>Between two multiples of the halving interval the schedule does not move.\<close>

lemma primary_epoch_reward_same:
  assumes "c_primary_epoch_reward_halving_interval self \<noteq> 0" "unat n = unat m + 1"
    and "\<not> is_multiple_of n (c_primary_epoch_reward_halving_interval self)"
  shows "primary_epoch_reward self n = primary_epoch_reward self m"
proof -
  let ?i = "c_primary_epoch_reward_halving_interval self"
  have "Suc (unat m) mod unat ?i \<noteq> 0"
    using assms by (simp add: is_multiple_of_def word_unat_eq_iff unat_mod_distrib)
  then have "Suc (unat m) div unat ?i = unat m div unat ?i" by (simp add: div_Suc)
  then have "n div ?i = m div ?i" using assms(2) by (simp add: word_unat_eq_iff unat_div_distrib)
  then show ?thesis by (simp add: primary_epoch_reward_def)
qed

lemma next_reward_scheduled:
  assumes "c_primary_epoch_reward_halving_interval self \<noteq> 0"
    and "primary_reward epoch = primary_epoch_reward self (ee_number epoch)"
    and "primary_epoch_reward_of_next_epoch self epoch = Some primary" "unat n = unat (ee_number epoch) + 1"
  shows "primary_epoch_reward self n = Some primary"
proof -
  have "checked_add (ee_number epoch) 1 = Some n" using assms(4) by (simp add: checked_add_Some)
  then show ?thesis
    using assms primary_epoch_reward_same [OF assms(1,4)]
    by (auto simp: primary_epoch_reward_of_next_epoch_def split: if_splits)
qed

section \<open>The epochs a chain can reach\<close>

inductive epoch_reachable :: "u256_lib \<Rightarrow> u256_bits \<Rightarrow> Consensus \<Rightarrow> EpochExt \<Rightarrow> bool" for L B self where
  genesis: "epoch_reachable L B self (c_genesis_epoch_ext self)"
| adjust: "epoch_reachable L B self epoch \<Longrightarrow>
    next_epoch_ext L B self header (Some (Some (TailBlock epoch uncles duration))) = Some (Some (HeadBlock epoch')) \<Longrightarrow>
    epoch_reachable L B self epoch'"

text \<open>What every epoch of a chain satisfies: a length within the bounds and the scheduled reward.\<close>

definition epoch_on_schedule :: "Consensus \<Rightarrow> EpochExt \<Rightarrow> bool" where
  "epoch_on_schedule self epoch \<longleftrightarrow>
     length_in_bounds (ee_length epoch) \<and> primary_reward epoch = primary_epoch_reward self (ee_number epoch)"

lemma adjust_step:
  assumes "adjusted_next_epoch L B self header epoch uncles duration = Some epoch'"
    and "c_primary_epoch_reward_halving_interval self \<noteq> 0" "epoch_on_schedule self epoch"
  shows "epoch_on_schedule self epoch' \<and> within_factor_two (ee_length epoch') (ee_length epoch) \<and>
    unat (ee_number epoch') = unat (ee_number epoch) + 1 \<and> unat (ee_start_number epoch') = unat (h_number header) + 1"
proof -
  from assms(1) obtain head primary len diff blocks target d rate bound where
    1: "primary_epoch_reward_of_next_epoch self epoch = Some primary" "head_epoch epoch header len primary = Some head"
    "next_epoch_length L B self epoch uncles d rate = Some (len, bound)"
    and e: "epoch' = head\<lparr>previous_epoch_hash_rate := adjusted_hash_rate L diff blocks d (previous_epoch_hash_rate epoch),
      ee_compact_target := target\<rparr>"
    by (rule adjusted_next_epoch_Some)
  note f = head_epoch_fields [OF 1(2)]
  have "primary_reward epoch' = primary_reward head"
    by (simp add: e primary_reward_def checked_primary_reward_def)
  then have "primary_reward epoch' = primary_epoch_reward self (ee_number epoch')"
    using next_reward_scheduled [OF assms(2) _ 1(1) f(2)] assms(3) f(5) by (simp add: epoch_on_schedule_def e)
  then show ?thesis
    using next_epoch_length_bounds [OF 1(3)] assms(3) f by (simp add: epoch_on_schedule_def e)
qed

lemma epoch_reachable_on_schedule:
  assumes "epoch_reachable L B self epoch" "\<not> permanent_difficulty self"
    and "c_primary_epoch_reward_halving_interval self \<noteq> 0" "epoch_on_schedule self (c_genesis_epoch_ext self)"
  shows "epoch_on_schedule self epoch"
  using assms(1)
proof (induction rule: epoch_reachable.induct)
  case genesis
  show ?case by (rule assms(4))
next
  case (adjust epoch header uncles duration epoch')
  then have "adjusted_next_epoch L B self header epoch uncles duration = Some epoch'"
    using assms(2) by (simp add: next_epoch_ext_def)
  from adjust_step [OF this assms(3) adjust.IH] show ?case by blast
qed

lemma adjust_hash_rate_bounds:
  assumes "u256_ok L" "prev \<noteq> 0" "unat prev < 2 ^ 255"
  shows "within_factor_two (adjusted_hash_rate L diff blocks d prev) prev" "adjusted_hash_rate L diff blocks d prev \<noteq> 0"
proof -
  have "0 < unat prev" using assms(2) by (simp add: unat_gt_0)
  then show "within_factor_two (adjusted_hash_rate L diff blocks d prev) prev"
    using bounding_hash_rate_bounds [OF assms, of "u_div L (u_mul L diff (ucast blocks)) d"]
    by (auto simp: within_factor_two_def adjusted_hash_rate_def unat_min_max)
  have "0 < unat (adjusted_hash_rate L diff blocks d prev)"
    by (simp add: adjusted_hash_rate_def unat_min_max)
  then show "adjusted_hash_rate L diff blocks d prev \<noteq> 0" by auto
qed

section \<open>Properties\<close>

text \<open>C25. Starting from a genesis epoch of a length between 300 and 1800 blocks with the scheduled reward,
  every epoch the difficulty adjustment ever reaches, for any headers, uncle counts and durations, has a length
  between 300 and 1800 blocks and a primary reward (base rewards plus remainder, computed without overflow)
  equal to the initial reward halved once per halving interval.\<close>

theorem reachable_epochs_on_schedule:
  assumes "\<not> permanent_difficulty self" "c_primary_epoch_reward_halving_interval self \<noteq> 0"
    and "epoch_on_schedule self (c_genesis_epoch_ext self)" "epoch_reachable L B self epoch"
  shows "300 \<le> unat (ee_length epoch) \<and> unat (ee_length epoch) \<le> 1800 \<and>
    primary_reward epoch = primary_epoch_reward self (ee_number epoch)"
  using epoch_reachable_on_schedule [OF assms(4,1,2,3)] by (simp add: epoch_on_schedule_def length_in_bounds_def)

definition ex_adjust_consensus :: Consensus where
  "ex_adjust_consensus = ex_consensus\<lparr>c_pow_is_dummy := False, c_primary_epoch_reward_halving_interval := 2,
     c_initial_primary_epoch_reward := Capacity 1000,
     c_genesis_epoch_ext := ex_epoch\<lparr>ee_number := 0, base_block_reward := Capacity 1, remainder_reward := Capacity 400,
       previous_epoch_hash_rate := 1, ee_start_number := 0, ee_length := 600\<rparr>\<rparr>"

definition ex_adjust_header :: HeaderView where
  "ex_adjust_header = ex_header\<lparr>h_number := 599, h_compact_target := 0x20800000\<rparr>"

definition ex_adjusted_epoch :: EpochExt where
  "ex_adjusted_epoch = (case next_epoch_ext u256_words u256_bit_words ex_adjust_consensus ex_adjust_header
     (Some (Some (TailBlock (c_genesis_epoch_ext ex_adjust_consensus) 0 1000000))) of
     Some (Some (HeadBlock e)) \<Rightarrow> e | _ \<Rightarrow> ex_epoch)"

lemma ex_adjust_step:
  "next_epoch_ext u256_words u256_bit_words ex_adjust_consensus ex_adjust_header
     (Some (Some (TailBlock (c_genesis_epoch_ext ex_adjust_consensus) 0 1000000))) = Some (Some (HeadBlock ex_adjusted_epoch))"
proof -
  have d: "compact_to_difficulty u256_bit_words 0x20800000 = Some 2"
    by (simp add: compact_to_difficulty_def compact_to_target_def target_to_difficulty_def u256_bit_words_def)
  have "\<exists>e. adjusted_next_epoch u256_words u256_bit_words ex_adjust_consensus ex_adjust_header
     (c_genesis_epoch_ext ex_adjust_consensus) 0 1000000 = Some e"
    by (simp add: adjusted_next_epoch_def ex_adjust_header_def d ex_adjust_consensus_def ex_consensus_def checked_add_def
        adjusted_hash_rate_def bounding_hash_rate_def u256_words_def MILLISECONDS_IN_A_SECOND_def TAU_def
        rat_new_def rat_reduce_def rat_new_raw_def next_epoch_length_def checked_mul_def MAX_EPOCH_LENGTH_def
        DEFAULT_EPOCH_DURATION_TARGET_def MIN_BLOCK_INTERVAL_def diff_denominator_def rat_is_zero_def
        primary_epoch_reward_of_next_epoch_def is_multiple_of_def primary_reward_def checked_primary_reward_def
        ok_or_def head_epoch_def next_epoch_diff_def rat_cmp_def cmp_of_def rat_into_u256_def rat_div_def
        difficulty_to_compact_def difficulty_to_target_def)
  then show ?thesis
    by (auto simp: ex_adjusted_epoch_def next_epoch_ext_def permanent_difficulty_def ex_adjust_consensus_def)
qed

theorem reachable_epochs_on_schedule_witness:
  "epoch_reachable u256_words u256_bit_words ex_adjust_consensus ex_adjusted_epoch \<and>
   300 \<le> unat (ee_length ex_adjusted_epoch) \<and>
   primary_reward ex_adjusted_epoch = primary_epoch_reward ex_adjust_consensus (ee_number ex_adjusted_epoch)"
proof -
  have reach: "epoch_reachable u256_words u256_bit_words ex_adjust_consensus ex_adjusted_epoch"
    by (rule epoch_reachable.adjust [OF epoch_reachable.genesis ex_adjust_step])
  have "epoch_on_schedule ex_adjust_consensus (c_genesis_epoch_ext ex_adjust_consensus)"
    by (simp add: epoch_on_schedule_def length_in_bounds_def ex_adjust_consensus_def primary_reward_def
        checked_primary_reward_def checked_mul_def checked_add_def primary_epoch_reward_def shannons_def ok_or_def)
  moreover have "\<not> permanent_difficulty ex_adjust_consensus" "c_primary_epoch_reward_halving_interval ex_adjust_consensus \<noteq> 0"
    by (simp_all add: permanent_difficulty_def ex_adjust_consensus_def)
  ultimately show ?thesis
    using reachable_epochs_on_schedule [OF _ _ _ reach] reach by blast
qed

text \<open>C26. One adjustment, whatever was measured: the next epoch begins right after the tail block with the next
  number, its length is within a factor of two of the last epoch's, and the hash rate estimate is
  within a factor of two of the last estimate and never zero.\<close>

theorem adjustment_is_damped:
  assumes "u256_ok L" "\<not> permanent_difficulty self" "length_in_bounds (ee_length epoch)"
    and "previous_epoch_hash_rate epoch \<noteq> 0" "unat (previous_epoch_hash_rate epoch) < 2 ^ 255"
    and "next_epoch_ext L B self header (Some (Some (TailBlock epoch uncles duration))) = Some (Some (HeadBlock epoch'))"
  shows "unat (ee_number epoch') = unat (ee_number epoch) + 1 \<and> unat (ee_start_number epoch') = unat (h_number header) + 1 \<and>
    last_block_hash_in_previous_epoch epoch' = h_hash header \<and>
    within_factor_two (ee_length epoch') (ee_length epoch) \<and> previous_epoch_hash_rate epoch' \<noteq> 0 \<and>
    within_factor_two (previous_epoch_hash_rate epoch') (previous_epoch_hash_rate epoch)"
proof -
  have "adjusted_next_epoch L B self header epoch uncles duration = Some epoch'"
    using assms(2,6) by (simp add: next_epoch_ext_def)
  then obtain head primary len diff blocks target d rate bound where
    1: "primary_epoch_reward_of_next_epoch self epoch = Some primary" "head_epoch epoch header len primary = Some head"
    "next_epoch_length L B self epoch uncles d rate = Some (len, bound)"
    and e: "epoch' = head\<lparr>previous_epoch_hash_rate := adjusted_hash_rate L diff blocks d (previous_epoch_hash_rate epoch),
      ee_compact_target := target\<rparr>"
    by (rule adjusted_next_epoch_Some)
  show ?thesis
    using head_epoch_fields [OF 1(2)] next_epoch_length_bounds [OF 1(3) assms(3)]
      adjust_hash_rate_bounds [OF assms(1,4,5)]
    by (simp add: e)
qed

theorem adjustment_is_damped_witness:
  "unat (ee_number ex_adjusted_epoch) = 1 \<and> unat (ee_start_number ex_adjusted_epoch) = 600 \<and>
   within_factor_two (ee_length ex_adjusted_epoch) 600"
  using adjustment_is_damped [OF u256_words_ok _ _ _ _ ex_adjust_step]
  by (simp add: permanent_difficulty_def ex_adjust_consensus_def ex_adjust_header_def length_in_bounds_def)

end
