(* ===== verification/Proposal_Table.thy ===== *)
theory Proposal_Table
  imports Consensus_Params
begin

text \<open>
  The proposal table of two-step transaction confirmation: \<open>util/proposal-table/src/lib.rs\<close>. The table
  is an ordered map from block numbers to the identifiers proposed there; \<open>finalize\<close> computes the view
  for the tip, \<open>None\<close> standing for its panics (overflow of the candidate number, an inverted range).

  The lemmas give the view as a set: an identifier is proposed when it stands in a block whose
  distance to the next block lies within the window, and in the gap when it is closer than that; and
  they show that the rows \<open>finalize\<close> drops can no longer matter.
\<close>

record ProposalView =
  pv_gap :: "ProposalShortId set"
  pv_set :: "ProposalShortId set"

definition contains_proposed :: "ProposalView \<Rightarrow> ProposalShortId \<Rightarrow> bool" where
  "contains_proposed view short_id \<longleftrightarrow> short_id \<in> pv_set view"

definition contains_gap :: "ProposalView \<Rightarrow> ProposalShortId \<Rightarrow> bool" where
  "contains_gap view short_id \<longleftrightarrow> short_id \<in> pv_gap view"

definition empty_view :: ProposalView where
  "empty_view = \<lparr>pv_gap = {}, pv_set = {}\<rparr>"

record ProposalTable =
  pt_table :: "(u64 \<times> ProposalShortId set) list"
  pt_window :: ProposalWindow

definition proposal_table_new :: "ProposalWindow \<Rightarrow> ProposalTable" where
  "proposal_table_new proposal_window = \<lparr>pt_table = [], pt_window = proposal_window\<rparr>"

definition proposal_table_insert :: "ProposalTable \<Rightarrow> u64 \<Rightarrow> ProposalShortId set \<Rightarrow> ProposalTable \<times> bool" where
  "proposal_table_insert self number ids =
     (self\<lparr>pt_table := btree_insert number ids (pt_table self)\<rparr>, map_of (pt_table self) number = None)"

definition proposal_table_remove :: "ProposalTable \<Rightarrow> u64 \<Rightarrow> ProposalTable \<times> ProposalShortId set option" where
  "proposal_table_remove self number =
     (self\<lparr>pt_table := btree_remove number (pt_table self)\<rparr>, map_of (pt_table self) number)"

definition flat_ids :: "(u64 \<times> ProposalShortId set) list \<Rightarrow> ProposalShortId set" where
  "flat_ids rows = \<Union> (set (map snd rows))"

text \<open>\<open>BTreeMap::range\<close> panics when the start lies after the end.\<close>

definition range_included :: "u64 \<Rightarrow> u64 \<Rightarrow> (u64 \<times> 'v) list \<Rightarrow> (u64 \<times> 'v) list option" where
  "range_included a b m = (if b < a then None else Some (filter (\<lambda>(n, _). a \<le> n \<and> n \<le> b) m))"

definition range_excluded :: "u64 \<Rightarrow> u64 \<Rightarrow> (u64 \<times> 'v) list \<Rightarrow> (u64 \<times> 'v) list option" where
  "range_excluded a b m = (if b < a then None else Some (filter (\<lambda>(n, _). a < n \<and> n \<le> b) m))"

definition proposal_table_finalize ::
    "ProposalTable \<Rightarrow> ProposalView \<Rightarrow> u64 \<Rightarrow> (ProposalTable \<times> ProposalShortId set \<times> ProposalView) option" where
  "proposal_table_finalize self origin number =
     (case checked_add number 1 of
       None \<Rightarrow> None
     | Some candidate_number \<Rightarrow>
         (let proposal_start = saturating_sub candidate_number (farthest (pt_window self));
              proposal_end = saturating_sub candidate_number (closest (pt_window self));
              table = (if proposal_start > 1 then btree_split_off proposal_start (pt_table self) else pt_table self);
              ids = (if candidate_number \<le> closest (pt_window self)
                     then Some ({}, flat_ids (filter (\<lambda>(n, _). n \<le> number) table))
                     else Option.bind (range_included proposal_start proposal_end table) (\<lambda>new_rows.
                          map_option (\<lambda>gap_rows. (flat_ids new_rows, flat_ids gap_rows))
                            (range_excluded proposal_end number table)))
          in map_option (\<lambda>(new_ids, gap).
                 (self\<lparr>pt_table := table\<rparr>, pv_set origin - new_ids, \<lparr>pv_gap = gap, pv_set = new_ids\<rparr>)) ids))"

section \<open>Lemmas\<close>

lemma flat_ids_iff: "btree_ok m \<Longrightarrow> short_id \<in> flat_ids (filter (\<lambda>(n, _). P n) m) \<longleftrightarrow> (\<exists>n ids. P n \<and> map_of m n = Some ids \<and> short_id \<in> ids)"
  using btree_in_set [of m] by (fastforce simp: flat_ids_def)

text \<open>The windows as distances from the candidate block, over natural numbers.\<close>

definition window_ids :: "ProposalTable \<Rightarrow> u64 \<Rightarrow> ProposalShortId set" where
  "window_ids self number = {short_id. \<exists>n ids. map_of (pt_table self) n = Some ids \<and> short_id \<in> ids \<and> n \<le> number \<and>
     unat (closest (pt_window self)) \<le> unat number + 1 - unat n \<and> unat number + 1 - unat n \<le> unat (farthest (pt_window self))}"

definition gap_ids :: "ProposalTable \<Rightarrow> u64 \<Rightarrow> ProposalShortId set" where
  "gap_ids self number = {short_id. \<exists>n ids. map_of (pt_table self) n = Some ids \<and> short_id \<in> ids \<and> n \<le> number \<and>
     unat number + 1 - unat n < unat (closest (pt_window self))}"

definition window_ok :: "ProposalWindow \<Rightarrow> bool" where
  "window_ok w \<longleftrightarrow> 1 \<le> closest w \<and> closest w \<le> farthest w"

text \<open>The genesis block proposes nothing.\<close>

definition genesis_row_ok :: "ProposalTable \<Rightarrow> bool" where
  "genesis_row_ok self \<longleftrightarrow> (\<forall>ids. map_of (pt_table self) 0 = Some ids \<longrightarrow> ids = {})"

lemma flat_ids_eq:
  assumes "btree_ok m" "\<And>n ids. map_of m n = Some ids \<Longrightarrow> ids \<noteq> {} \<Longrightarrow> P n \<Longrightarrow> map_of m' n = Some ids \<and> Q n"
    and "\<And>n ids. map_of m' n = Some ids \<Longrightarrow> ids \<noteq> {} \<Longrightarrow> Q n \<Longrightarrow> map_of m n = Some ids \<and> P n"
  shows "flat_ids (filter (\<lambda>(n, _). P n) m) = {short_id. \<exists>n ids. map_of m' n = Some ids \<and> short_id \<in> ids \<and> Q n}"
proof (intro set_eqI iffI)
  fix x assume "x \<in> flat_ids (filter (\<lambda>(n, _). P n) m)"
  then obtain n ids where "P n" "map_of m n = Some ids" "x \<in> ids"
    using flat_ids_iff [OF assms(1)] by blast
  with assms(2) [of n ids] show "x \<in> {short_id. \<exists>n ids. map_of m' n = Some ids \<and> short_id \<in> ids \<and> Q n}"
    by blast
next
  fix x assume "x \<in> {short_id. \<exists>n ids. map_of m' n = Some ids \<and> short_id \<in> ids \<and> Q n}"
  then obtain n ids where "map_of m' n = Some ids" "x \<in> ids" "Q n" by blast
  with assms(3) [of n ids] show "x \<in> flat_ids (filter (\<lambda>(n, _). P n) m)"
    using flat_ids_iff [OF assms(1)] by blast
qed

lemma finalize_spec:
  assumes "btree_ok (pt_table self)" "window_ok (pt_window self)" "number \<noteq> - 1" "genesis_row_ok self"
  obtains self' where
    "proposal_table_finalize self origin number =
       Some (self', pv_set origin - window_ids self number, \<lparr>pv_gap = gap_ids self number, pv_set = window_ids self number\<rparr>)"
    "pt_window self' = pt_window self" "btree_ok (pt_table self')"
    "\<And>n. unat number + 1 \<le> unat n + unat (farthest (pt_window self)) \<Longrightarrow> map_of (pt_table self') n = map_of (pt_table self) n"
    "\<And>n ids. map_of (pt_table self') n = Some ids \<Longrightarrow> map_of (pt_table self) n = Some ids"
proof -
  let ?close = "closest (pt_window self)" and ?far = "farthest (pt_window self)"
  have "unat number + 1 < 2 ^ 64"
    using assms(3) unat_lt2p [of number] by (simp add: word_unat_eq_iff)
  then obtain c where c: "checked_add number 1 = Some c" "unat c = Suc (unat number)"
    by (cases "checked_add number 1") (auto simp: checked_add_None checked_add_Some)
  define start where "start = saturating_sub c ?far"
  define stop where "stop = saturating_sub c ?close"
  define table where "table = (if start > 1 then btree_split_off start (pt_table self) else pt_table self)"
  have w: "1 \<le> unat ?close" "unat ?close \<le> unat ?far"
    using assms(2) by (simp_all add: window_ok_def word_le_nat_alt)
  have ok: "btree_ok table" using assms(1) by (simp add: table_def btree_ok_split_off)
  have same: "map_of table n = map_of (pt_table self) n" if "start \<le> n" for n
    using that by (simp add: table_def map_of_btree_split_off)
  have sub: "map_of table n = Some x \<Longrightarrow> map_of (pt_table self) n = Some x" for n x
    by (simp add: table_def map_of_btree_split_off split: if_splits)
  have start: "unat start = unat number + 1 - unat ?far" and stop: "unat stop = unat number + 1 - unat ?close"
    by (simp_all add: start_def stop_def unat_saturating_sub c)
  have pos: "unat n \<noteq> 0" if "map_of (pt_table self) n = Some ids" "ids \<noteq> {}" for n ids
    using assms(4) that by (auto simp: genesis_row_ok_def unat_eq_0)
  have ids: "window_ids self number = (if c \<le> ?close then {} else flat_ids (filter (\<lambda>(n, _). start \<le> n \<and> n \<le> stop) table))"
  proof (cases "c \<le> ?close")
    case True
    have False if "map_of (pt_table self) n = Some ids" "x \<in> ids" "n \<le> number" "unat ?close \<le> unat number + 1 - unat n" for n ids x
    proof -
      have "unat n \<noteq> 0" using pos [OF that(1)] that(2) by blast
      then show False using True that(3,4) by (simp add: word_le_nat_alt c)
    qed
    then show ?thesis using True by (auto simp: window_ids_def)
  next
    case False
    have close: "unat ?close \<le> unat number" using False by (simp add: word_le_nat_alt c)
    have "flat_ids (filter (\<lambda>(n, _). start \<le> n \<and> n \<le> stop) table) = window_ids self number"
      unfolding window_ids_def
    proof (rule flat_ids_eq [OF ok])
      fix n ids assume "map_of table n = Some ids" "start \<le> n \<and> n \<le> stop"
      then show "map_of (pt_table self) n = Some ids \<and> n \<le> number \<and> unat ?close \<le> unat number + 1 - unat n \<and>
          unat number + 1 - unat n \<le> unat ?far"
        using sub w close by (auto simp: start stop word_le_nat_alt)
    next
      fix n ids assume "map_of (pt_table self) n = Some ids"
        "n \<le> number \<and> unat ?close \<le> unat number + 1 - unat n \<and> unat number + 1 - unat n \<le> unat ?far"
      then show "map_of table n = Some ids \<and> start \<le> n \<and> n \<le> stop"
        using same [of n] w close by (auto simp: start stop word_le_nat_alt)
    qed
    then show ?thesis using False by simp
  qed
  have gap: "gap_ids self number = flat_ids (filter (\<lambda>(n, _). (c \<le> ?close \<or> stop < n) \<and> n \<le> number) table)"
    unfolding gap_ids_def
  proof (rule flat_ids_eq [OF ok, symmetric])
    fix n ids assume 1: "map_of table n = Some ids" "ids \<noteq> {}" "(c \<le> ?close \<or> stop < n) \<and> n \<le> number"
    have "unat number + 1 - unat n < unat ?close"
      using 1(3) pos [OF sub [OF 1(1)] 1(2)] w
      by (auto simp: stop word_le_nat_alt word_less_nat_alt c)
    then show "map_of (pt_table self) n = Some ids \<and> n \<le> number \<and> unat number + 1 - unat n < unat ?close"
      using 1 sub by blast
  next
    fix n ids assume 1: "map_of (pt_table self) n = Some ids" "n \<le> number \<and> unat number + 1 - unat n < unat ?close"
    then have "start \<le> n" using w(2) unfolding word_le_nat_alt start by linarith
    then show "map_of table n = Some ids \<and> (c \<le> ?close \<or> stop < n) \<and> n \<le> number"
      using 1 same [of n] by (auto simp: stop word_le_nat_alt word_less_nat_alt c)
  qed
  have order: "\<not> stop < start" "\<not> number < stop"
    using w by (auto simp: start stop word_less_nat_alt)
  have "proposal_table_finalize self origin number = Some (self\<lparr>pt_table := table\<rparr>, pv_set origin - window_ids self number,
      \<lparr>pv_gap = gap_ids self number, pv_set = window_ids self number\<rparr>)"
    unfolding proposal_table_finalize_def c(1) option.case Let_def start_def [symmetric] stop_def [symmetric] table_def [symmetric]
    using order by (simp add: ids gap range_included_def range_excluded_def)
  then show thesis
  proof (rule that [of "self\<lparr>pt_table := table\<rparr>"])
    fix n :: u64 assume "unat number + 1 \<le> unat n + unat ?far"
    then have "start \<le> n" unfolding word_le_nat_alt start by linarith
    then show "map_of (pt_table (self\<lparr>pt_table := table\<rparr>)) n = map_of (pt_table self) n" by (simp add: same)
  next
    fix n x assume "map_of (pt_table (self\<lparr>pt_table := table\<rparr>)) n = Some x"
    then show "map_of (pt_table self) n = Some x" using sub [of n x] by simp
  qed (simp_all add: ok)
qed

section \<open>Properties\<close>

text \<open>C30. For a window of at least one block and the tip \<open>number\<close>, finalising never panics. The identifiers
  proposed are those of the rows whose distance from the next block lies between the closest and the
  farthest bound of the window, those in the gap come from closer rows, and the removed ones are those
  of the previous view that are no longer proposed. Rows that a later window can reach are kept.\<close>

theorem finalize_window:
  assumes "btree_ok (pt_table self)" and "window_ok (pt_window self)" and "number \<noteq> - 1" and "genesis_row_ok self"
  shows "\<exists>self' view. proposal_table_finalize self origin number = Some (self', pv_set origin - pv_set view, view) \<and>
    pv_set view = {short_id. \<exists>n ids. map_of (pt_table self) n = Some ids \<and> short_id \<in> ids \<and> n \<le> number \<and>
       unat (closest (pt_window self)) \<le> unat number + 1 - unat n \<and> unat number + 1 - unat n \<le> unat (farthest (pt_window self))} \<and>
    pv_gap view = {short_id. \<exists>n ids. map_of (pt_table self) n = Some ids \<and> short_id \<in> ids \<and> n \<le> number \<and>
       unat number + 1 - unat n < unat (closest (pt_window self))} \<and>
    (\<forall>n. unat number + 1 \<le> unat n + unat (farthest (pt_window self)) \<longrightarrow>
       map_of (pt_table self') n = map_of (pt_table self) n)"
proof -
  obtain self' where
    "proposal_table_finalize self origin number =
       Some (self', pv_set origin - window_ids self number, \<lparr>pv_gap = gap_ids self number, pv_set = window_ids self number\<rparr>)"
    "\<And>n. unat number + 1 \<le> unat n + unat (farthest (pt_window self)) \<Longrightarrow> map_of (pt_table self') n = map_of (pt_table self) n"
    using finalize_spec [OF assms] by metis
  then show ?thesis
    by (intro exI [of _ self'] exI [of _ "\<lparr>pv_gap = gap_ids self number, pv_set = window_ids self number\<rparr>"])
      (simp add: window_ids_def gap_ids_def)
qed

definition ex_table :: ProposalTable where
  "ex_table = \<lparr>pt_table = [(1, {[1]}), (5, {[5]}), (9, {[9]})], pt_window = ProposalWindow 2 10\<rparr>"

theorem finalize_window_witness:
  "\<exists>self' removed view. proposal_table_finalize ex_table empty_view 9 = Some (self', removed, view) \<and>
     [5] \<in> pv_set view \<and> [9] \<in> pv_gap view"
proof -
  have "btree_ok (pt_table ex_table)" "window_ok (pt_window ex_table)" "(9 :: u64) \<noteq> - 1" "genesis_row_ok ex_table"
    by (simp_all add: ex_table_def btree_ok_def window_ok_def genesis_row_ok_def)
  from finalize_window [OF this, of empty_view] obtain self' view where
    f: "proposal_table_finalize ex_table empty_view 9 = Some (self', pv_set empty_view - pv_set view, view)"
    and set: "pv_set view = {short_id. \<exists>n ids. map_of (pt_table ex_table) n = Some ids \<and> short_id \<in> ids \<and> n \<le> 9 \<and>
       unat (closest (pt_window ex_table)) \<le> unat (9 :: u64) + 1 - unat n \<and> unat (9 :: u64) + 1 - unat n \<le> unat (farthest (pt_window ex_table))}"
    and gap: "pv_gap view = {short_id. \<exists>n ids. map_of (pt_table ex_table) n = Some ids \<and> short_id \<in> ids \<and> n \<le> 9 \<and>
       unat (9 :: u64) + 1 - unat n < unat (closest (pt_window ex_table))}"
    by blast
  have "[5] \<in> pv_set view" unfolding set mem_Collect_eq by (rule exI [of _ 5]) (simp add: ex_table_def)
  moreover have "[9] \<in> pv_gap view" unfolding gap mem_Collect_eq by (rule exI [of _ 9]) (simp add: ex_table_def)
  ultimately show ?thesis using f by blast
qed

end
