(* ===== verification/Chain_Fork.thy ===== *)
theory Chain_Fork
  imports Epoch_Adjust Proposal_Table
begin

text \<open>
  Switching the main chain (\<open>chain/src/verify.rs\<close>, \<open>chain/src/utils/forkchanges.rs\<close>): finding the blocks
  to detach and to attach for a new best block, rolling the store back, and moving the table of proposals.
  \<open>None\<close> is a panic (\<open>expect\<close> on a missing block, overflow of a checked operator).

  The lemmas show that \<open>find_fork\<close> finds the latest common ancestor and terminates, that rolling back
  detached blocks restores the store as it was before they were attached, and that the proposal
  table keeps describing the blocks of the current main chain in the proposal window.
\<close>

section \<open>Fork changes\<close>

record ForkChanges =
  attached_blocks :: "BlockView list"
  detached_blocks :: "BlockView list"
  detached_proposal_id :: "ProposalShortId set"
  dirty_exts :: "BlockExt list"

definition fork_default :: ForkChanges where
  "fork_default = \<lparr>attached_blocks = [], detached_blocks = [], detached_proposal_id = {}, dirty_exts = []\<rparr>"

definition has_detached :: "ForkChanges \<Rightarrow> bool" where
  "has_detached self \<longleftrightarrow> detached_blocks self \<noteq> []"

definition verified_len :: "ForkChanges \<Rightarrow> nat option" where
  "verified_len self =
     (if length (dirty_exts self) \<le> length (attached_blocks self)
      then Some (length (attached_blocks self) - length (dirty_exts self)) else None)"

record GlobalIndex =
  gi_number :: u64
  gi_hash :: byte32
  gi_unseen :: bool

definition gi_forward :: "GlobalIndex \<Rightarrow> byte32 \<Rightarrow> GlobalIndex option" where
  "gi_forward self hash = map_option (\<lambda>number. self\<lparr>gi_number := number, gi_hash := hash\<rparr>) (checked_sub (gi_number self) 1)"

section \<open>Finding the fork\<close>

text \<open>\<open>get_block(hash).expect(..)\<close>, and the same for a block of the main chain.\<close>

definition expect_block :: "ChainDB \<Rightarrow> byte32 \<Rightarrow> BlockView option" where
  "expect_block db hash = (case get_block db hash of Some (Some block) \<Rightarrow> Some block | _ \<Rightarrow> None)"

definition main_block :: "ChainDB \<Rightarrow> u64 \<Rightarrow> BlockView option" where
  "main_block db number = Option.bind (get_block_hash db number) (expect_block db)"

text \<open>An inclusive range of block numbers.\<close>

definition number_range :: "u64 \<Rightarrow> u64 \<Rightarrow> u64 list" where
  "number_range a b = map word_of_nat [unat a..<Suc (unat b)]"

text \<open>The part both loops share: collect the extension of a block that has not been verified.\<close>

definition note_ext :: "ChainDB \<Rightarrow> ForkChanges \<Rightarrow> GlobalIndex \<Rightarrow> (ForkChanges \<times> GlobalIndex) option" where
  "note_ext db fork index =
     (if gi_unseen index
      then map_option (\<lambda>ext.
          if be_verified ext = None then (fork\<lparr>dirty_exts := ext # dirty_exts fork\<rparr>, index)
          else (fork, index\<lparr>gi_unseen := False\<rparr>)) (get_block_ext db (gi_hash index))
      else Some (fork, index))"

lemma gi_forward_less: "gi_forward index hash = Some index' \<Longrightarrow> unat (gi_number index') < unat (gi_number index)"
  by (auto simp: gi_forward_def checked_sub_Some)

lemma note_ext_number: "note_ext db fork index = Some (fork', index') \<Longrightarrow> gi_number index' = gi_number index"
  by (auto simp: note_ext_def split: if_splits)

function align_attached :: "ChainDB \<Rightarrow> u64 \<Rightarrow> ForkChanges \<Rightarrow> GlobalIndex \<Rightarrow> (ForkChanges \<times> GlobalIndex) option" where
  "align_attached db current_tip_number fork index =
     (if gi_number index > current_tip_number
      then (case note_ext db fork index of
          None \<Rightarrow> None
        | Some (fork', index') \<Rightarrow>
            (case expect_block db (gi_hash index) of
              None \<Rightarrow> None
            | Some new_block \<Rightarrow>
                (case gi_forward index' (b_parent_hash new_block) of
                  None \<Rightarrow> None
                | Some index'' \<Rightarrow>
                    align_attached db current_tip_number
                      (fork'\<lparr>attached_blocks := new_block # attached_blocks fork'\<rparr>) index'')))
      else Some (fork, index))"
  by pat_completeness auto
termination
  by (relation "measure (\<lambda>(db, tip, fork, index). unat (gi_number index))")
    (auto dest!: gi_forward_less note_ext_number)

definition alignment_fork ::
    "ChainDB \<Rightarrow> ForkChanges \<Rightarrow> GlobalIndex \<Rightarrow> u64 \<Rightarrow> u64 \<Rightarrow> (ForkChanges \<times> GlobalIndex) option" where
  "alignment_fork db fork index new_tip_number current_tip_number =
     (if new_tip_number \<le> current_tip_number
      then map_option (\<lambda>old_blocks. (fork\<lparr>detached_blocks := detached_blocks fork @ old_blocks\<rparr>, index))
             (those (map (main_block db) (number_range new_tip_number current_tip_number)))
      else align_attached db current_tip_number fork index)"

function find_fork_until_latest_common :: "ChainDB \<Rightarrow> ForkChanges \<Rightarrow> GlobalIndex \<Rightarrow> (ForkChanges \<times> GlobalIndex) option" where
  "find_fork_until_latest_common db fork index =
     (if gi_number index = 0 then Some (fork, index)
      else (case get_block_hash db (gi_number index) of
          None \<Rightarrow> None
        | Some detached_hash \<Rightarrow>
            if detached_hash = gi_hash index then Some (fork, index)
            else (case expect_block db detached_hash of
                None \<Rightarrow> None
              | Some detached_block \<Rightarrow>
                  (case note_ext db (fork\<lparr>detached_blocks := detached_block # detached_blocks fork\<rparr>) index of
                    None \<Rightarrow> None
                  | Some (fork', index') \<Rightarrow>
                      (case expect_block db (gi_hash index) of
                        None \<Rightarrow> None
                      | Some attached_block \<Rightarrow>
                          (case gi_forward index' (b_parent_hash attached_block) of
                            None \<Rightarrow> None
                          | Some index'' \<Rightarrow>
                              find_fork_until_latest_common db
                                (fork'\<lparr>attached_blocks := attached_block # attached_blocks fork'\<rparr>) index''))))))"
  by pat_completeness auto
termination
  by (relation "measure (\<lambda>(db, fork, index). unat (gi_number index))")
    (auto dest!: gi_forward_less note_ext_number)

definition find_fork :: "ChainDB \<Rightarrow> ForkChanges \<Rightarrow> u64 \<Rightarrow> BlockView \<Rightarrow> BlockExt \<Rightarrow> ForkChanges option" where
  "find_fork db fork current_tip_number new_tip_block new_tip_ext =
     (case checked_sub (b_number new_tip_block) 1 of
       None \<Rightarrow> None
     | Some number \<Rightarrow>
         (case alignment_fork db
             (fork\<lparr>dirty_exts := new_tip_ext # dirty_exts fork, attached_blocks := new_tip_block # attached_blocks fork\<rparr>)
             \<lparr>gi_number = number, gi_hash = b_parent_hash new_tip_block, gi_unseen = True\<rparr>
             (b_number new_tip_block) current_tip_number of
           None \<Rightarrow> None
         | Some (fork', index) \<Rightarrow> map_option fst (find_fork_until_latest_common db fork' index)))"

declare align_attached.simps [simp del] find_fork_until_latest_common.simps [simp del]

section \<open>Rolling back\<close>

definition detach_one :: "(u8 list \<Rightarrow> byte32) \<Rightarrow> BlockView \<Rightarrow> ChainDB option \<Rightarrow> ChainDB option" where
  "detach_one data_hash block acc = Option.bind acc (\<lambda>txn. detach_block_cell data_hash (detach_block txn block) block)"

definition rollback :: "(u8 list \<Rightarrow> byte32) \<Rightarrow> ForkChanges \<Rightarrow> ChainDB \<Rightarrow> ChainDB option" where
  "rollback data_hash fork txn = fold (detach_one data_hash) (rev (detached_blocks fork)) (Some txn)"

section \<open>The proposal table of the main chain\<close>

definition union_proposal_ids :: "BlockView \<Rightarrow> ProposalShortId set" where
  "union_proposal_ids self = set (b_proposals self) \<union> (\<Union>u\<in>set (b_uncles self). set (uncle_proposals u))"

definition reload_proposal_table :: "ChainDB \<Rightarrow> ProposalWindow \<Rightarrow> ProposalTable \<Rightarrow> ForkChanges \<Rightarrow> ProposalTable option" where
  "reload_proposal_table db proposal_window table fork =
     (case detached_blocks fork of
       [] \<Rightarrow> Some table
     | front # _ \<Rightarrow>
         if b_number front < 2 then Some table
         else
           (let common = b_number front - 1;
                new_tip = (if attached_blocks fork = [] then common else b_number (last (attached_blocks fork)))
            in (case checked_add new_tip 1 of
                 None \<Rightarrow> None
               | Some candidate \<Rightarrow>
                   (let proposal_start = max 1 (saturating_sub candidate (farthest proposal_window))
                    in fold (\<lambda>bn acc. Option.bind acc (\<lambda>table.
                           map_option (\<lambda>blk. fst (proposal_table_insert table bn (union_proposal_ids blk))) (main_block db bn)))
                         (number_range proposal_start common) (Some table)))))"

definition update_proposal_table :: "ChainDB \<Rightarrow> ProposalWindow \<Rightarrow> ProposalTable \<Rightarrow> ForkChanges \<Rightarrow> ProposalTable option" where
  "update_proposal_table db proposal_window table fork =
     (let removed = fold (\<lambda>blk table. fst (proposal_table_remove table (b_number blk))) (detached_blocks fork) table;
          inserted = fold (\<lambda>blk table. fst (proposal_table_insert table (b_number blk) (union_proposal_ids blk)))
                       (attached_blocks fork) removed
      in reload_proposal_table db proposal_window inserted fork)"

text \<open>\<open>init_proposal_table\<close>: the table of a node that starts on an existing store.\<close>

definition stored_proposal_ids :: "ChainDB \<Rightarrow> byte32 \<Rightarrow> ProposalShortId set" where
  "stored_proposal_ids db hash =
     (case get_block_proposal_txs_ids db hash of Some ids \<Rightarrow> set ids | None \<Rightarrow> {}) \<union>
     (case get_block_uncles db hash of Some us \<Rightarrow> \<Union>u\<in>set us. set (uncle_proposals u) | None \<Rightarrow> {})"

definition init_proposal_table :: "ChainDB \<Rightarrow> ProposalWindow \<Rightarrow> (ProposalTable \<times> ProposalView) option" where
  "init_proposal_table db proposal_window =
     (case get_tip_header db of
       None \<Rightarrow> None
     | Some tip \<Rightarrow>
         (let tip_number = h_number tip;
              proposal_start = saturating_sub tip_number (farthest proposal_window);
              table = fold (\<lambda>bn table.
                  (case get_block_hash db bn of
                    Some hash \<Rightarrow> fst (proposal_table_insert table bn (stored_proposal_ids db hash))
                  | None \<Rightarrow> table))
                (number_range proposal_start tip_number) (proposal_table_new proposal_window)
          in map_option (\<lambda>(table, _, proposals). (table, proposals)) (proposal_table_finalize table empty_view tip_number)))"

section \<open>The latest common ancestor\<close>

text \<open>What a new block extends: \<open>M\<close> gives the blocks of the main chain up to \<open>tip\<close>, \<open>F\<close> those of the branch of the new
  block, which leaves the main chain after block \<open>c\<close>. \<open>E\<close> gives the extensions stored for the branch.\<close>

definition main_chain :: "ChainDB \<Rightarrow> (nat \<Rightarrow> BlockView) \<Rightarrow> nat \<Rightarrow> bool" where
  "main_chain db M tip \<longleftrightarrow>
     (\<forall>i\<le>tip. get_block_hash db (word_of_nat i) = Some (b_hash (M i)) \<and> expect_block db (b_hash (M i)) = Some (M i) \<and>
        b_number (M i) = word_of_nat i)"

definition branch ::
    "ChainDB \<Rightarrow> (nat \<Rightarrow> BlockView) \<Rightarrow> nat \<Rightarrow> (nat \<Rightarrow> BlockView) \<Rightarrow> (nat \<Rightarrow> BlockExt) \<Rightarrow> nat \<Rightarrow> nat \<Rightarrow> bool" where
  "branch db M tip F E c n \<longleftrightarrow> c < n \<and> c \<le> tip \<and> tip < 2 ^ 64 \<and> n < 2 ^ 64 \<and>
     b_number (F n) = word_of_nat n \<and> b_hash (F c) = b_hash (M c) \<and>
     (\<forall>i. c \<le> i \<and> i < n \<longrightarrow> b_parent_hash (F (Suc i)) = b_hash (F i)) \<and>
     (\<forall>i. c < i \<and> i < n \<longrightarrow> expect_block db (b_hash (F i)) = Some (F i) \<and> get_block_ext db (b_hash (F i)) = Some (E i)) \<and>
     (\<forall>i. c < i \<and> i < n \<and> i \<le> tip \<longrightarrow> b_hash (F i) \<noteq> b_hash (M i))"

text \<open>The state of the search after the branch has been followed down to block \<open>k\<close>. \<open>v\<close> is the last
  block of the branch known to be verified; the extensions above it are dirty.\<close>

definition search_at ::
    "(nat \<Rightarrow> BlockView) \<Rightarrow> (nat \<Rightarrow> BlockExt) \<Rightarrow> nat \<Rightarrow> BlockExt \<Rightarrow> nat \<Rightarrow> ForkChanges \<Rightarrow> GlobalIndex \<Rightarrow> bool" where
  "search_at F E n ext k fork index \<longleftrightarrow> k < n \<and> n < 2 ^ 64 \<and>
     gi_number index = word_of_nat k \<and> gi_hash index = b_hash (F k) \<and> attached_blocks fork = map F [Suc k..<Suc n] \<and>
     (\<exists>v. k \<le> v \<and> v < n \<and> dirty_exts fork = map E [Suc v..<n] @ [ext] \<and> (\<forall>i. v < i \<and> i < n \<longrightarrow> be_verified (E i) = None) \<and>
        (if gi_unseen index then v = k else k < v \<and> be_verified (E v) \<noteq> None))"

lemma search_at_detached [simp]:
  "search_at F E n ext k (fork\<lparr>detached_blocks := bs\<rparr>) index = search_at F E n ext k fork index"
  by (simp add: search_at_def)

lemma word_of_nat_u64: "k < 2 ^ 64 \<Longrightarrow> unat (word_of_nat k :: u64) = k"
  by (simp add: unat_of_nat)

text \<open>One step of the search, shared by both loops.\<close>

lemma search_step:
  assumes "search_at F E n ext k fork index" "0 < k"
    and "expect_block db (b_hash (F k)) = Some (F k)" "get_block_ext db (b_hash (F k)) = Some (E k)"
    and "b_parent_hash (F k) = b_hash (F (k - 1))"
  obtains fork' index' index'' where "note_ext db fork index = Some (fork', index')"
    "expect_block db (gi_hash index) = Some (F k)" "gi_forward index' (b_parent_hash (F k)) = Some index''"
    "search_at F E n ext (k - 1) (fork'\<lparr>attached_blocks := F k # attached_blocks fork'\<rparr>) index''"
    "detached_blocks fork' = detached_blocks fork"
proof -
  obtain j where k: "k = Suc j" using assms(2) by (cases k) auto
  have at: "k < n" "n < 2 ^ 64" "gi_number index = word_of_nat k" "gi_hash index = b_hash (F k)"
    "attached_blocks fork = map F [Suc k..<Suc n]"
    using assms(1) by (simp_all add: search_at_def)
  obtain v where v: "k \<le> v" "v < n" "dirty_exts fork = map E [Suc v..<n] @ [ext]"
    "\<And>i. v < i \<Longrightarrow> i < n \<Longrightarrow> be_verified (E i) = None"
    "if gi_unseen index then v = k else k < v \<and> be_verified (E v) \<noteq> None"
    using assms(1) by (auto simp: search_at_def)
  have sub: "checked_sub (word_of_nat k :: u64) 1 = Some (word_of_nat j)"
    using at(1,2) k word_of_nat_u64 [of k] word_of_nat_u64 [of j] by (simp add: checked_sub_Some del: of_nat_Suc)
  have attached: "F k # map F [Suc k..<Suc n] = map F [Suc j..<Suc n]"
    using at(1) k by (simp add: upt_conv_Cons)
  define dirty where "dirty \<longleftrightarrow> gi_unseen index \<and> be_verified (E k) = None"
  define fork' where "fork' = (if dirty then fork\<lparr>dirty_exts := E k # dirty_exts fork\<rparr> else fork)"
  define index' where "index' = (if dirty then index else index\<lparr>gi_unseen := False\<rparr>)"
  have note1: "note_ext db fork index = Some (fork', index')"
    using at(4) assms(4) by (auto simp: note_ext_def fork'_def index'_def dirty_def)
  have forward: "gi_forward index' (b_parent_hash (F k)) =
      Some (index'\<lparr>gi_number := word_of_nat j, gi_hash := b_hash (F j)\<rparr>)"
    using sub at(3) assms(5) k by (simp add: gi_forward_def index'_def)
  have "search_at F E n ext j (fork'\<lparr>attached_blocks := F k # attached_blocks fork'\<rparr>)
      (index'\<lparr>gi_number := word_of_nat j, gi_hash := b_hash (F j)\<rparr>)"
  proof (cases dirty)
    case True
    then have "v = k" using v(5) by (simp add: dirty_def)
    moreover have "E k # map E [Suc k..<n] = map E [k..<n]"
      using at(1) by (simp add: upt_conv_Cons)
    moreover have "be_verified (E i) = None" if "j < i" "i < n" for i
      using that True v(4) [of i] \<open>v = k\<close> k by (cases "i = k") (auto simp: dirty_def)
    ultimately show ?thesis
      using True at k attached v(3) by (auto simp: search_at_def fork'_def index'_def dirty_def intro!: exI [of _ j])
  next
    case False
    then have "be_verified (E v) \<noteq> None" using v(5) by (auto simp: dirty_def split: if_splits)
    then show ?thesis
      using False at k attached v by (auto simp: search_at_def fork'_def index'_def intro!: exI [of _ v])
  qed
  then show thesis
    using note1 at(4) assms(3) forward k by (intro that [of fork' index']) (simp_all add: fork'_def)
qed

lemma branch_parent: "branch db M tip F E c n \<Longrightarrow> c < k \<Longrightarrow> k \<le> n \<Longrightarrow> b_parent_hash (F k) = b_hash (F (k - 1))"
  by (cases k) (auto simp: branch_def)

lemma align_attached_search:
  assumes "branch db M tip F E c n" "search_at F E n ext k fork index" "tip \<le> k"
  shows "\<exists>fork' index'. align_attached db (word_of_nat tip) fork index = Some (fork', index') \<and>
    search_at F E n ext tip fork' index' \<and> detached_blocks fork' = detached_blocks fork"
  using assms(2,3)
proof (induction "k - tip" arbitrary: k fork index)
  case 0
  then have "k = tip" by simp
  then show ?case using 0 by (auto simp: align_attached.simps [of db] search_at_def)
next
  case (Suc d)
  have b: "c < k" "k < n" "n < 2 ^ 64" using Suc assms(1) by (auto simp: branch_def search_at_def)
  then have less: "word_of_nat tip < gi_number index"
    using Suc by (simp add: search_at_def word_less_nat_alt word_of_nat_u64)
  have F: "expect_block db (b_hash (F k)) = Some (F k)" "get_block_ext db (b_hash (F k)) = Some (E k)"
    using assms(1) b by (simp_all add: branch_def)
  have parent: "b_parent_hash (F k) = b_hash (F (k - 1))"
    using branch_parent [OF assms(1)] b by simp
  obtain fork' index' index'' where step: "note_ext db fork index = Some (fork', index')"
    "expect_block db (gi_hash index) = Some (F k)" "gi_forward index' (b_parent_hash (F k)) = Some index''"
    "search_at F E n ext (k - 1) (fork'\<lparr>attached_blocks := F k # attached_blocks fork'\<rparr>) index''"
    "detached_blocks fork' = detached_blocks fork"
    using search_step [OF Suc.prems(1) _ F parent] b(1) by auto
  have "align_attached db (word_of_nat tip) fork index =
      align_attached db (word_of_nat tip) (fork'\<lparr>attached_blocks := F k # attached_blocks fork'\<rparr>) index''"
    using less step by (simp add: align_attached.simps [of db _ fork])
  then show ?case
    using Suc.hyps(1) [OF _ step(4)] Suc.hyps(2) step(5) by auto
qed

text \<open>The second loop detaches and attaches one block of each chain down to the common ancestor.\<close>

lemma until_latest_common_search:
  assumes "branch db M tip F E c n" "main_chain db M tip" "search_at F E n ext k fork index" "c \<le> k" "k \<le> tip"
    and "detached_blocks fork = map M [Suc k..<Suc tip]"
  shows "\<exists>fork' index'. find_fork_until_latest_common db fork index = Some (fork', index') \<and>
    search_at F E n ext c fork' index' \<and> detached_blocks fork' = map M [Suc c..<Suc tip]"
  using assms(3-6)
proof (induction "k - c" arbitrary: k fork index)
  case 0
  then have "k = c" by simp
  moreover have "get_block_hash db (word_of_nat c) = Some (b_hash (F c))"
    using assms(1,2) by (simp add: branch_def main_chain_def)
  ultimately have "find_fork_until_latest_common db fork index = Some (fork, index)"
    using 0(2) by (simp add: find_fork_until_latest_common.simps [of db fork] search_at_def)
  then show ?case using 0 \<open>k = c\<close> by auto
next
  case (Suc d)
  have b: "c < k" "k < n" "n < 2 ^ 64" using Suc by (auto simp: search_at_def)
  have number: "gi_number index = word_of_nat k" "gi_number index \<noteq> 0" "gi_hash index = b_hash (F k)"
    using Suc.prems(1) b word_of_nat_u64 [of k] by (auto simp: search_at_def)
  have F: "expect_block db (b_hash (F k)) = Some (F k)" "get_block_ext db (b_hash (F k)) = Some (E k)"
    "b_hash (F k) \<noteq> b_hash (M k)"
    using assms(1) b Suc.prems(3) by (simp_all add: branch_def)
  have M: "get_block_hash db (word_of_nat k) = Some (b_hash (M k))" "expect_block db (b_hash (M k)) = Some (M k)"
    using assms(2) Suc.prems(3) by (simp_all add: main_chain_def)
  have parent: "b_parent_hash (F k) = b_hash (F (k - 1))"
    using branch_parent [OF assms(1)] b by simp
  let ?fork = "fork\<lparr>detached_blocks := M k # detached_blocks fork\<rparr>"
  have at: "search_at F E n ext k ?fork index" using Suc.prems(1) by (simp add: search_at_def)
  obtain fork' index' index'' where step: "note_ext db ?fork index = Some (fork', index')"
    "expect_block db (gi_hash index) = Some (F k)" "gi_forward index' (b_parent_hash (F k)) = Some index''"
    "search_at F E n ext (k - 1) (fork'\<lparr>attached_blocks := F k # attached_blocks fork'\<rparr>) index''"
    "detached_blocks fork' = M k # detached_blocks fork"
    using search_step [OF at _ F(1,2) parent] b(1) by auto
  have "find_fork_until_latest_common db fork index =
      find_fork_until_latest_common db (fork'\<lparr>attached_blocks := F k # attached_blocks fork'\<rparr>) index''"
    using number F(1,3) M step by (simp add: find_fork_until_latest_common.simps [of db fork])
  moreover have "M k # map M [Suc k..<Suc tip] = map M [Suc (k - 1)..<Suc tip]"
    using b(1) Suc.prems(3) upt_conv_Cons [of k "Suc tip"] by (simp del: upt_Suc)
  ultimately show ?case
    using Suc.hyps(1) [OF _ step(4)] Suc.hyps(2) Suc.prems b(1) step(5) by auto
qed

lemma those_map_Some: "(\<And>x. x \<in> set xs \<Longrightarrow> f x = Some (g x)) \<Longrightarrow> those (map f xs) = Some (map g xs)"
  by (induction xs) simp_all

lemma main_chain_range:
  assumes "main_chain db M tip" "a \<le> Suc tip" "tip < 2 ^ 64" "a < 2 ^ 64"
  shows "those (map (main_block db) (number_range (word_of_nat a) (word_of_nat tip))) = Some (map M [a..<Suc tip])"
proof -
  have "those (map (\<lambda>i. main_block db (word_of_nat i)) [a..<Suc tip]) = Some (map M [a..<Suc tip])"
    using assms(1) by (intro those_map_Some) (auto simp: main_chain_def main_block_def)
  then show ?thesis
    using assms by (simp add: number_range_def word_of_nat_u64 comp_def del: upt_Suc)
qed

lemma alignment_search:
  assumes "branch db M tip F E c n" "main_chain db M tip"
  obtains k fork' index' where
    "alignment_fork db (fork_default\<lparr>dirty_exts := [ext], attached_blocks := [F n]\<rparr>)
       \<lparr>gi_number = word_of_nat (n - 1), gi_hash = b_hash (F (n - 1)), gi_unseen = True\<rparr> (word_of_nat n) (word_of_nat tip) =
     Some (fork', index')"
    "search_at F E n ext k fork' index'" "c \<le> k" "k \<le> tip" "detached_blocks fork' = map M [Suc k..<Suc tip]"
proof -
  let ?fork = "fork_default\<lparr>dirty_exts := [ext], attached_blocks := [F n]\<rparr>"
  let ?index = "\<lparr>gi_number = word_of_nat (n - 1), gi_hash = b_hash (F (n - 1)), gi_unseen = True\<rparr>"
  have n: "c < n" "c \<le> tip" "tip < 2 ^ 64" "n < 2 ^ 64" using assms(1) by (auto simp: branch_def)
  have at: "search_at F E n ext (n - 1) ?fork ?index"
    using n by (auto simp: search_at_def intro!: exI [of _ "n - 1"])
  have less: "(word_of_nat n :: u64) \<le> word_of_nat tip \<longleftrightarrow> n \<le> tip"
    using n by (simp add: word_le_nat_alt word_of_nat_u64)
  show thesis
  proof (cases "n \<le> tip")
    case True
    have "alignment_fork db ?fork ?index (word_of_nat n) (word_of_nat tip) =
        Some (?fork\<lparr>detached_blocks := map M [n..<Suc tip]\<rparr>, ?index)"
      using True n less main_chain_range [OF assms(2), of n] by (simp add: alignment_fork_def fork_default_def)
    moreover have "search_at F E n ext (n - 1) (?fork\<lparr>detached_blocks := map M [n..<Suc tip]\<rparr>) ?index"
      unfolding search_at_detached by (rule at)
    ultimately show thesis
      using n True by (intro that [of "?fork\<lparr>detached_blocks := map M [n..<Suc tip]\<rparr>" ?index "n - 1"]) simp_all
  next
    case False
    then have "tip \<le> n - 1" by simp
    from align_attached_search [OF assms(1) at this] obtain fork' index' where
      "align_attached db (word_of_nat tip) ?fork ?index = Some (fork', index')"
      "search_at F E n ext tip fork' index'" "detached_blocks fork' = detached_blocks ?fork"
      by blast
    then show thesis
      using False less n by (intro that [of fork' index' tip]) (simp_all add: alignment_fork_def fork_default_def)
  qed
qed

lemma find_fork_search:
  assumes "branch db M tip F E c n" "main_chain db M tip"
  obtains fork v where
    "find_fork db fork_default (word_of_nat tip) (F n) ext = Some fork"
    "attached_blocks fork = map F [Suc c..<Suc n]" "detached_blocks fork = map M [Suc c..<Suc tip]"
    "c \<le> v" "v < n" "dirty_exts fork = map E [Suc v..<n] @ [ext]"
    "\<And>i. v < i \<Longrightarrow> i < n \<Longrightarrow> be_verified (E i) = None" "c < v \<Longrightarrow> be_verified (E v) \<noteq> None"
proof -
  obtain k fork' index' where 1:
    "alignment_fork db (fork_default\<lparr>dirty_exts := [ext], attached_blocks := [F n]\<rparr>)
       \<lparr>gi_number = word_of_nat (n - 1), gi_hash = b_hash (F (n - 1)), gi_unseen = True\<rparr> (word_of_nat n) (word_of_nat tip) =
     Some (fork', index')"
    "search_at F E n ext k fork' index'" "c \<le> k" "k \<le> tip" "detached_blocks fork' = map M [Suc k..<Suc tip]"
    by (rule alignment_search [OF assms])
  obtain fork index where 2: "find_fork_until_latest_common db fork' index' = Some (fork, index)"
    "search_at F E n ext c fork index" "detached_blocks fork = map M [Suc c..<Suc tip]"
    using until_latest_common_search [OF assms 1(2-5)] by blast
  have n: "c < n" "n < 2 ^ 64" "b_number (F n) = word_of_nat n" "b_parent_hash (F n) = b_hash (F (n - 1))"
    using assms(1) branch_parent [OF assms(1), of n] by (simp_all add: branch_def)
  then have "checked_sub (b_number (F n)) 1 = Some (word_of_nat (n - 1))"
    using word_of_nat_u64 [of "n - 1"] word_of_nat_u64 [of n] by (simp add: checked_sub_Some del: of_nat_diff)
  then have "find_fork db fork_default (word_of_nat tip) (F n) ext = Some fork"
    using 1(1) 2(1) n by (simp add: find_fork_def fork_default_def)
  moreover obtain v where "c \<le> v" "v < n" "dirty_exts fork = map E [Suc v..<n] @ [ext]"
    "\<forall>i. v < i \<and> i < n \<longrightarrow> be_verified (E i) = None" "if gi_unseen index then v = c else c < v \<and> be_verified (E v) \<noteq> None"
    using 2(2) by (auto simp: search_at_def)
  moreover have "attached_blocks fork = map F [Suc c..<Suc n]" using 2(2) by (simp add: search_at_def)
  ultimately show thesis using 2(3) by (intro that [of fork v]) (auto split: if_splits)
qed

section \<open>Rolling back restores the store\<close>

definition attach_one :: "(u8 list \<Rightarrow> byte32) \<Rightarrow> BlockView \<Rightarrow> ChainDB \<Rightarrow> ChainDB" where
  "attach_one data_hash block txn = attach_block_cell data_hash (attach_block txn block) block"

text \<open>A sequence of blocks that can be attached one after the other.\<close>

primrec attachable_all :: "(u8 list \<Rightarrow> byte32) \<Rightarrow> BlockView list \<Rightarrow> ChainDB \<Rightarrow> bool" where
  "attachable_all data_hash [] db \<longleftrightarrow> True"
| "attachable_all data_hash (b # bs) db \<longleftrightarrow>
     attachable db b \<and> block_stored db b \<and> attachable_all data_hash bs (attach_one data_hash b db)"

lemma detach_attach_one:
  "cells_ok data_hash db \<Longrightarrow> attachable db b \<Longrightarrow> detach_one data_hash b (Some (attach_one data_hash b db)) = Some db"
  by (simp add: detach_one_def attach_one_def detach_undoes_attach)

lemma rollback_attached:
  assumes "cells_ok data_hash db" "attachable_all data_hash bs db"
  shows "fold (detach_one data_hash) (rev bs) (Some (fold (attach_one data_hash) bs db)) = Some db"
  using assms
proof (induction bs arbitrary: db)
  case (Cons b bs)
  then have "cells_ok data_hash (attach_one data_hash b db)"
    by (simp add: attach_one_def attach_keeps_cells_ok)
  then have "fold (detach_one data_hash) (rev bs) (Some (fold (attach_one data_hash) bs (attach_one data_hash b db))) =
      Some (attach_one data_hash b db)"
    using Cons by simp
  then show ?case using detach_attach_one Cons.prems by simp
qed simp

text \<open>Attaching blocks changes the index of the main chain, not the blocks that are stored.\<close>

lemma get_block_cong:
  assumes "col_header db' = col_header db" "col_body db' = col_body db" "col_block_uncle db' = col_block_uncle db"
    "col_extension db' = col_extension db" "col_proposal_ids db' = col_proposal_ids db"
    "cache_headers db' = cache_headers db" "cache_uncles db' = cache_uncles db" "cache_proposals db' = cache_proposals db"
    "cache_extensions db' = cache_extensions db" "freezer_number db' = freezer_number db" "freezer_retrieve db' = freezer_retrieve db"
  shows "get_block db' = get_block db"
  unfolding fun_eq_iff get_block_def get_unfrozen_parts_def get_block_header_def get_block_uncles_def
    get_block_proposal_txs_ids_def get_block_extension_def get_block_body_def is_frozen_def assms
  by simp

lemma attach_one_reads:
  "expect_block (attach_one data_hash b db) = expect_block db"
  "get_block_hash (attach_one data_hash b db) = (get_block_hash db)(b_number b \<mapsto> b_hash b)"
proof -
  have "get_block (attach_one data_hash b db) = get_block db"
    by (rule get_block_cong) (simp_all add: attach_one_def attach_block_cell_def insert_cells_eq delete_cells_eq attach_block_eq)
  then show "expect_block (attach_one data_hash b db) = expect_block db" by (simp add: expect_block_def fun_eq_iff)
  show "get_block_hash (attach_one data_hash b db) = (get_block_hash db)(b_number b \<mapsto> b_hash b)"
    by (simp add: get_block_hash_def attach_one_def attach_block_cell_def insert_cells_eq delete_cells_eq attach_block_eq fun_eq_iff)
qed

lemma attach_all_reads:
  "expect_block (fold (attach_one data_hash) bs db) = expect_block db"
  "get_block_hash (fold (attach_one data_hash) bs db) = get_block_hash db ++ map_of (rev (map (\<lambda>b. (b_number b, b_hash b)) bs))"
proof (induction bs arbitrary: db)
  case (Cons b bs)
  {
    case 1
    show ?case by (simp add: Cons.IH(1) attach_one_reads)
  next
    case 2
    show ?case by (simp add: Cons.IH(2) attach_one_reads map_add_def fun_eq_iff split: option.splits)
  }
qed simp_all

lemma map_of_numbers:
  assumes "m < 2 ^ 64" "i < 2 ^ 64"
  shows "map_of (rev (map (\<lambda>j. (word_of_nat j :: u64, g j)) [a..<m])) (word_of_nat i) = (if a \<le> i \<and> i < m then Some (g i) else None)"
  using assms(1)
proof (induction m)
  case (Suc m)
  then have "(word_of_nat m :: u64) = word_of_nat i \<longleftrightarrow> m = i"
    using word_of_nat_u64 [OF assms(2)] word_of_nat_u64 [OF Suc_lessD] by metis
  then show ?case using Suc by auto
qed simp

text \<open>The blocks of the branch, attached on the common ancestor, become the main chain.\<close>

lemma attach_branch_main_chain:
  assumes "main_chain db M c" "Suc n < 2 ^ 64" "c < n"
    and "\<And>i. c < i \<Longrightarrow> i \<le> n \<Longrightarrow> b_number (F i) = word_of_nat i \<and> expect_block db (b_hash (F i)) = Some (F i)"
  shows "main_chain (fold (attach_one data_hash) (map F [Suc c..<Suc n]) db) (\<lambda>i. if i \<le> c then M i else F i) n"
proof -
  have rows: "map (\<lambda>b. (b_number b, b_hash b)) (map F [Suc c..<Suc n]) = map (\<lambda>i. (word_of_nat i, b_hash (F i))) [Suc c..<Suc n]"
    using assms(4) by (simp del: upt_Suc)
  have reads: "get_block_hash (fold (attach_one data_hash) (map F [Suc c..<Suc n]) db) (word_of_nat i) =
      (if c < i then Some (b_hash (F i)) else get_block_hash db (word_of_nat i))" if "i \<le> n" for i
    using that assms(2) map_of_numbers [of "Suc n" i "\<lambda>i. b_hash (F i)" "Suc c"]
    unfolding attach_all_reads(2) rows map_add_def by (simp add: Suc_le_eq less_Suc_eq_le del: upt_Suc)
  show ?thesis
    unfolding main_chain_def attach_all_reads(1)
  proof (intro allI impI)
    fix i assume "i \<le> n"
    then show "get_block_hash (fold (attach_one data_hash) (map F [Suc c..<Suc n]) db) (word_of_nat i) =
        Some (b_hash (if i \<le> c then M i else F i)) \<and>
      expect_block db (b_hash (if i \<le> c then M i else F i)) = Some (if i \<le> c then M i else F i) \<and>
      b_number (if i \<le> c then M i else F i) = word_of_nat i"
      using reads [of i] assms(1) assms(4) [of i] by (cases "i \<le> c") (simp_all add: main_chain_def)
  qed
qed

section \<open>The table of proposals follows the main chain\<close>

text \<open>The table describes the main chain \<open>M\<close> up to \<open>tip\<close>: in reach of the window it has the proposals of each block,
  and nothing above the tip.\<close>

definition table_tracks :: "ProposalTable \<Rightarrow> (nat \<Rightarrow> BlockView) \<Rightarrow> nat \<Rightarrow> bool" where
  "table_tracks table M tip \<longleftrightarrow> btree_ok (pt_table table) \<and> genesis_row_ok table \<and>
     (\<forall>i. 1 \<le> i \<and> i \<le> tip \<and> tip + 1 \<le> i + unat (farthest (pt_window table)) \<longrightarrow>
        map_of (pt_table table) (word_of_nat i) = Some (union_proposal_ids (M i))) \<and>
     (\<forall>number. tip < unat number \<longrightarrow> map_of (pt_table table) number = None)"

text \<open>Rows in reach of the window, read as blocks of the main chain.\<close>

lemma tracked_rows:
  assumes "table_tracks table M tip" "Suc tip < 2 ^ 64" "\<And>i. P i \<Longrightarrow> tip + 1 \<le> i + unat (farthest (pt_window table))"
  shows "{short_id. \<exists>n ids. map_of (pt_table table) n = Some ids \<and> short_id \<in> ids \<and> n \<le> word_of_nat tip \<and> P (unat n)} =
    (\<Union>i\<in>{i. 1 \<le> i \<and> i \<le> tip \<and> P i}. union_proposal_ids (M i))" (is "?L = ?R")
proof (intro set_eqI iffI)
  have T: "map_of (pt_table table) (word_of_nat i) = Some (union_proposal_ids (M i))" if "1 \<le> i" "i \<le> tip" "P i" for i
    using assms(1,3) that by (simp add: table_tracks_def)
  have tip: "unat (word_of_nat tip :: u64) = tip" using assms(2) by (simp add: word_of_nat_u64)
  {
    fix x assume "x \<in> ?L"
    then obtain n ids where n: "map_of (pt_table table) n = Some ids" "x \<in> ids" "unat n \<le> tip" "P (unat n)"
      by (auto simp: word_le_nat_alt tip)
    have "unat n \<noteq> 0" using assms(1) n(1,2) by (auto simp: table_tracks_def genesis_row_ok_def unat_eq_0)
    then have "ids = union_proposal_ids (M (unat n))" using T [of "unat n"] n by simp
    then show "x \<in> ?R" using n \<open>unat n \<noteq> 0\<close> by (intro UN_I [of "unat n"]) simp_all
  next
    fix x assume "x \<in> ?R"
    then obtain i where i: "1 \<le> i" "i \<le> tip" "P i" "x \<in> union_proposal_ids (M i)" by auto
    then have "unat (word_of_nat i :: u64) = i" using assms(2) by (simp add: word_of_nat_u64)
    then show "x \<in> ?L" using i T [of i] by (auto simp: word_le_nat_alt tip intro!: exI [of _ "word_of_nat i"])
  }
qed

lemma finalize_tracks:
  assumes "table_tracks table M tip" "window_ok (pt_window table)" "Suc tip < 2 ^ 64"
  obtains table' view where
    "proposal_table_finalize table origin (word_of_nat tip) = Some (table', pv_set origin - pv_set view, view)"
    "table_tracks table' M tip" "pt_window table' = pt_window table"
    "pv_set view = (\<Union>i\<in>{i. 1 \<le> i \<and> i \<le> tip \<and> unat (closest (pt_window table)) \<le> tip + 1 - i \<and>
        tip + 1 - i \<le> unat (farthest (pt_window table))}. union_proposal_ids (M i))"
    "pv_gap view = (\<Union>i\<in>{i. 1 \<le> i \<and> i \<le> tip \<and> tip + 1 - i < unat (closest (pt_window table))}. union_proposal_ids (M i))"
proof -
  let ?tip = "word_of_nat tip :: u64"
  have tip: "unat ?tip = tip" "?tip \<noteq> - 1"
    using assms(3) word_of_nat_u64 [of tip] unat_max_word [where 'a = 64] by (auto simp del: unat_max_word)
  have ok: "btree_ok (pt_table table)" "genesis_row_ok table" using assms(1) by (simp_all add: table_tracks_def)
  obtain table' where t: "proposal_table_finalize table origin ?tip =
       Some (table', pv_set origin - window_ids table ?tip, \<lparr>pv_gap = gap_ids table ?tip, pv_set = window_ids table ?tip\<rparr>)"
    "pt_window table' = pt_window table" "btree_ok (pt_table table')"
    "\<And>n. unat ?tip + 1 \<le> unat n + unat (farthest (pt_window table)) \<Longrightarrow> map_of (pt_table table') n = map_of (pt_table table) n"
    "\<And>n ids. map_of (pt_table table') n = Some ids \<Longrightarrow> map_of (pt_table table) n = Some ids"
    by (rule finalize_spec [OF ok(1) assms(2) tip(2) ok(2)]) (rule that)
  have "map_of (pt_table table') number = None" if "tip < unat number" for number
    using t(5) [of number] that assms(1) by (cases "map_of (pt_table table') number") (auto simp: table_tracks_def)
  moreover have "map_of (pt_table table') (word_of_nat i) = Some (union_proposal_ids (M i))"
    if "1 \<le> i" "i \<le> tip" "tip + 1 \<le> i + unat (farthest (pt_window table))" for i
    using t(4) [of "word_of_nat i"] that assms(1,3) by (simp add: tip table_tracks_def word_of_nat_u64)
  moreover have "genesis_row_ok table'" using ok(2) t(5) by (auto simp: genesis_row_ok_def)
  ultimately have tracks: "table_tracks table' M tip" using t(2,3) by (simp add: table_tracks_def)
  have w: "unat (closest (pt_window table)) \<le> unat (farthest (pt_window table))"
    using assms(2) by (simp add: window_ok_def word_le_nat_alt)
  have "window_ids table ?tip = (\<Union>i\<in>{i. 1 \<le> i \<and> i \<le> tip \<and> unat (closest (pt_window table)) \<le> tip + 1 - i \<and>
        tip + 1 - i \<le> unat (farthest (pt_window table))}. union_proposal_ids (M i))"
    unfolding window_ids_def tip by (rule tracked_rows [OF assms(1,3)]) linarith
  moreover have "gap_ids table ?tip =
      (\<Union>i\<in>{i. 1 \<le> i \<and> i \<le> tip \<and> tip + 1 - i < unat (closest (pt_window table))}. union_proposal_ids (M i))"
    unfolding gap_ids_def tip by (rule tracked_rows [OF assms(1,3)]) (use w in simp)
  ultimately show thesis using t(1,2) tracks by (intro that [of table' "\<lparr>pv_gap = gap_ids table ?tip, pv_set = window_ids table ?tip\<rparr>"]) simp_all
qed

subsection \<open>Moving the table\<close>

lemma fold_table_remove:
  assumes "btree_ok (pt_table table)"
  shows "map_of (pt_table (fold (\<lambda>blk table. fst (proposal_table_remove table (b_number blk))) bs table)) =
      map_of (pt_table table) |` (- (b_number ` set bs)) \<and>
    btree_ok (pt_table (fold (\<lambda>blk table. fst (proposal_table_remove table (b_number blk))) bs table)) \<and>
    pt_window (fold (\<lambda>blk table. fst (proposal_table_remove table (b_number blk))) bs table) = pt_window table"
  using assms
  by (induction bs arbitrary: table)
    (auto simp: proposal_table_remove_def btree_ok_remove restrict_map_def fun_eq_iff)

lemma fold_table_insert:
  assumes "btree_ok (pt_table table)"
  shows "map_of (pt_table (fold (\<lambda>x table. fst (proposal_table_insert table (k x) (v x))) xs table)) =
      map_of (pt_table table) ++ map_of (rev (map (\<lambda>x. (k x, v x)) xs)) \<and>
    btree_ok (pt_table (fold (\<lambda>x table. fst (proposal_table_insert table (k x) (v x))) xs table)) \<and>
    pt_window (fold (\<lambda>x table. fst (proposal_table_insert table (k x) (v x))) xs table) = pt_window table"
  using assms
  by (induction xs arbitrary: table)
    (auto simp: proposal_table_insert_def btree_ok_insert map_add_def fun_eq_iff split: option.splits)

lemma fold_reload:
  assumes "\<And>bn. bn \<in> set ns \<Longrightarrow> main_block db bn = Some (blk bn)"
  shows "fold (\<lambda>bn acc. Option.bind acc (\<lambda>table.
      map_option (\<lambda>blk. fst (proposal_table_insert table bn (union_proposal_ids blk))) (main_block db bn))) ns (Some table) =
    Some (fold (\<lambda>bn table. fst (proposal_table_insert table bn (union_proposal_ids (blk bn)))) ns table)"
  using assms by (induction ns arbitrary: table) simp_all

lemma number_range_set: "k \<in> set (number_range a b) \<longleftrightarrow> a \<le> k \<and> k \<le> b"
proof
  assume "k \<in> set (number_range a b)"
  then obtain i where "k = word_of_nat i" "unat a \<le> i" "i \<le> unat b" by (auto simp: number_range_def)
  then show "a \<le> k \<and> k \<le> b"
    using word_of_nat_u64 [of i] unat_lt2p [of b] by (simp add: word_le_nat_alt)
next
  assume "a \<le> k \<and> k \<le> b"
  then have "unat k \<in> {unat a..<Suc (unat b)}" by (simp add: word_le_nat_alt)
  then have "word_of_nat (unat k) \<in> (word_of_nat :: nat \<Rightarrow> u64) ` {unat a..<Suc (unat b)}" by (rule imageI)
  then show "k \<in> set (number_range a b)" by (simp add: number_range_def del: upt_Suc)
qed

text \<open>The rows after the blocks of a fork have been removed and inserted.\<close>

definition switched_rows ::
    "(u64 \<rightharpoonup> ProposalShortId set) \<Rightarrow> nat \<Rightarrow> nat \<Rightarrow> (nat \<Rightarrow> BlockView) \<Rightarrow> nat \<Rightarrow> u64 \<rightharpoonup> ProposalShortId set" where
  "switched_rows rows c tip F n k =
     (if c < unat k \<and> unat k \<le> n then Some (union_proposal_ids (F (unat k)))
      else if c < unat k \<and> unat k \<le> tip then None else rows k)"

lemma switch_rows:
  assumes "btree_ok (pt_table table)" "Suc tip < 2 ^ 64" "Suc n < 2 ^ 64"
    and "\<And>i. c < i \<Longrightarrow> i \<le> tip \<Longrightarrow> b_number (M i) = word_of_nat i"
    and "\<And>i. c < i \<Longrightarrow> i \<le> n \<Longrightarrow> b_number (F i) = word_of_nat i"
  defines "removed \<equiv> fold (\<lambda>blk table. fst (proposal_table_remove table (b_number blk))) (map M [Suc c..<Suc tip]) table"
  defines "table' \<equiv> fold (\<lambda>blk table. fst (proposal_table_insert table (b_number blk) (union_proposal_ids blk))) (map F [Suc c..<Suc n]) removed"
  shows "map_of (pt_table table') = switched_rows (map_of (pt_table table)) c tip F n"
    "btree_ok (pt_table table')" "pt_window table' = pt_window table"
proof -
  note r = fold_table_remove [OF assms(1), of "map M [Suc c..<Suc tip]", folded removed_def]
  note t = fold_table_insert [of removed b_number union_proposal_ids "map F [Suc c..<Suc n]", folded table'_def]
  show "btree_ok (pt_table table')" "pt_window table' = pt_window table" using r t by simp_all
  have rows: "map (\<lambda>x. (b_number x, union_proposal_ids x)) (map F [Suc c..<Suc n]) =
      map (\<lambda>i. (word_of_nat i, union_proposal_ids (F i))) [Suc c..<Suc n]"
    using assms(5) by (simp del: upt_Suc)
  have dead: "k \<in> b_number ` set (map M [Suc c..<Suc tip]) \<longleftrightarrow> c < unat k \<and> unat k \<le> tip" for k
  proof -
    have "b_number ` set (map M [Suc c..<Suc tip]) = word_of_nat ` {Suc c..<Suc tip}"
      using assms(4) by (auto simp del: upt_Suc simp: image_image)
    moreover have "k \<in> word_of_nat ` {Suc c..<Suc tip} \<longleftrightarrow> unat k \<in> {Suc c..<Suc tip}"
      using assms(2) by (auto simp: word_of_nat_u64 image_iff intro!: bexI [of _ "unat k"])
    ultimately show ?thesis by auto
  qed
  show "map_of (pt_table table') = switched_rows (map_of (pt_table table)) c tip F n"
  proof
    fix k
    show "map_of (pt_table table') k = switched_rows (map_of (pt_table table)) c tip F n k"
      using r t dead [of k] map_of_numbers [of "Suc n" "unat k" "\<lambda>i. union_proposal_ids (F i)" "Suc c"] assms(3) unat_lt2p [of k]
      unfolding rows by (simp add: map_add_def switched_rows_def restrict_map_def Suc_le_eq less_Suc_eq_le del: upt_Suc)
  qed
qed

lemma max_sat_sub:
  "unat (max 1 (saturating_sub candidate far)) = max 1 (unat candidate - unat far)" for candidate far :: u64
  by (simp add: unat_min_max unat_saturating_sub)

lemma reload_rows:
  assumes "btree_ok (pt_table table)" "main_chain db M' n" "c \<le> n" "Suc n < 2 ^ 64"
    and "detached_blocks fork \<noteq> []" "b_number (hd (detached_blocks fork)) = word_of_nat (Suc c)"
    and "attached_blocks fork = [] \<and> n = c \<or> attached_blocks fork \<noteq> [] \<and> b_number (last (attached_blocks fork)) = word_of_nat n"
  obtains table' where "reload_proposal_table db w table fork = Some table'" "pt_window table' = pt_window table"
    "btree_ok (pt_table table')"
    "\<And>k. map_of (pt_table table') k =
       (if 1 \<le> unat k \<and> n + 1 \<le> unat k + unat (farthest w) \<and> unat k \<le> c then Some (union_proposal_ids (M' (unat k)))
        else map_of (pt_table table) k)"
proof (cases "c = 0")
  case True
  have "reload_proposal_table db w table fork = Some table"
    using assms(5,6) True by (cases "detached_blocks fork") (simp_all add: reload_proposal_table_def)
  then show thesis using True assms(1) by (intro that [of table]) auto
next
  case False
  obtain front rest where front: "detached_blocks fork = front # rest" using assms(5) by (cases "detached_blocks fork") auto
  have c: "unat (b_number front) = Suc c"
    using assms(3,4,6) front word_of_nat_u64 [of "Suc c"] by (simp del: of_nat_Suc)
  then have two: "\<not> b_number front < 2" using False by (simp add: word_less_nat_alt)
  have common: "b_number front - 1 = word_of_nat c"
    using assms(6) front by simp
  define tip where "tip = (if attached_blocks fork = [] then word_of_nat c else b_number (last (attached_blocks fork)))"
  have "tip = word_of_nat n" using assms(7) by (auto simp: tip_def)
  then have tip: "checked_add tip 1 = Some (word_of_nat (Suc n))"
    using assms(4) word_of_nat_u64 [of n] word_of_nat_u64 [of "Suc n"] by (simp add: checked_add_Some del: of_nat_Suc)
  define start where "start = max 1 (saturating_sub (word_of_nat (Suc n)) (farthest w))"
  have start: "unat start = max 1 (Suc n - unat (farthest w))"
    unfolding start_def max_sat_sub using assms(4) word_of_nat_u64 [of "Suc n"] by (simp del: of_nat_Suc)
  have range: "k \<in> set (number_range start (word_of_nat c)) \<longleftrightarrow>
      1 \<le> unat k \<and> n + 1 \<le> unat k + unat (farthest w) \<and> unat k \<le> c" for k
    unfolding number_range_set word_le_nat_alt start using assms(3,4) word_of_nat_u64 [of c] by auto
  have blk: "main_block db bn = Some (M' (unat bn))" if "bn \<in> set (number_range start (word_of_nat c))" for bn
    using that assms(2,3) by (auto simp: range main_chain_def main_block_def dest!: spec [of _ "unat bn"])
  let ?table = "fold (\<lambda>bn table. fst (proposal_table_insert table bn (union_proposal_ids (M' (unat bn)))))
      (number_range start (word_of_nat c)) table"
  have "reload_proposal_table db w table fork = Some ?table"
    using two tip fold_reload [OF blk, of "number_range start (word_of_nat c)" table]
    by (simp add: reload_proposal_table_def front common tip_def [symmetric] Let_def start_def [symmetric] del: of_nat_Suc)
  then show thesis
    using fold_table_insert [OF assms(1), of "\<lambda>bn. bn" "\<lambda>bn. union_proposal_ids (M' (unat bn))" "number_range start (word_of_nat c)"]
    by (intro that [of ?table]) (simp_all add: map_of_rev_graph map_add_def range)
qed

lemma tracks_after_switch:
  assumes "table_tracks table M tip" "c \<le> tip" "Suc n < 2 ^ 64" "Suc tip < 2 ^ 64" "btree_ok (pt_table table')" "pt_window table' = pt_window table"
    and rows: "\<And>k. map_of (pt_table table') k = (if P (unat k) then Some (union_proposal_ids (M (unat k)))
        else switched_rows (map_of (pt_table table)) c tip F n k)"
    and P: "\<And>i. P i \<Longrightarrow> 1 \<le> i \<and> i \<le> c"
    and reach: "\<And>i. 1 \<le> i \<Longrightarrow> i \<le> c \<Longrightarrow> n + 1 \<le> i + unat (farthest (pt_window table)) \<Longrightarrow>
        P i \<or> tip + 1 \<le> i + unat (farthest (pt_window table))"
    and "c \<le> n"
  shows "table_tracks table' (\<lambda>i. if i \<le> c then M i else F i) n"
  unfolding table_tracks_def
proof (intro conjI allI impI)
  show "btree_ok (pt_table table')" by fact
  have "\<not> P 0" using P [of 0] by auto
  then show "genesis_row_ok table'"
    using assms(1) rows [of 0] by (simp add: genesis_row_ok_def table_tracks_def switched_rows_def)
next
  fix i assume i: "1 \<le> i \<and> i \<le> n \<and> n + 1 \<le> i + unat (farthest (pt_window table'))"
  then have u: "unat (word_of_nat i :: u64) = i" using assms(3) by (simp add: word_of_nat_u64)
  show "map_of (pt_table table') (word_of_nat i) = Some (union_proposal_ids (if i \<le> c then M i else F i))"
  proof (cases "i \<le> c \<and> \<not> P i")
    case True
    then have "map_of (pt_table table) (word_of_nat i) = Some (union_proposal_ids (M i))"
      using reach [of i] i assms(1,2,6) by (simp add: table_tracks_def)
    then show ?thesis using True rows [of "word_of_nat i"] by (simp add: u switched_rows_def)
  next
    case False
    then show ?thesis using rows [of "word_of_nat i"] i P [of i] by (auto simp: u switched_rows_def)
  qed
next
  fix number :: u64 assume "n < unat number"
  then show "map_of (pt_table table') number = None"
    using rows [of number] P [of "unat number"] assms(1,2,10) by (auto simp: switched_rows_def table_tracks_def)
qed

lemma update_tracks:
  assumes "table_tracks table M tip" "c \<le> tip" "c \<le> n" "Suc tip < 2 ^ 64" "Suc n < 2 ^ 64"
    and "main_chain db (\<lambda>i. if i \<le> c then M i else F i) n"
    and "\<And>i. c < i \<Longrightarrow> i \<le> tip \<Longrightarrow> b_number (M i) = word_of_nat i"
    and "attached_blocks fork = map F [Suc c..<Suc n]" "detached_blocks fork = map M [Suc c..<Suc tip]" "pt_window table = w"
    and "tip \<le> n \<or> c < tip"
  obtains table' where "update_proposal_table db w table fork = Some table'" "pt_window table' = w"
    "table_tracks table' (\<lambda>i. if i \<le> c then M i else F i) n"
proof -
  let ?M = "\<lambda>i. if i \<le> c then M i else F i"
  have F: "b_number (F i) = word_of_nat i" if "c < i" "i \<le> n" for i
    using assms(6) that by (auto simp: main_chain_def dest!: spec [of _ i])
  define table1 where "table1 = fold (\<lambda>blk table. fst (proposal_table_insert table (b_number blk) (union_proposal_ids blk)))
    (map F [Suc c..<Suc n]) (fold (\<lambda>blk table. fst (proposal_table_remove table (b_number blk))) (map M [Suc c..<Suc tip]) table)"
  have ok: "btree_ok (pt_table table)" using assms(1) by (simp add: table_tracks_def)
  have 1: "map_of (pt_table table1) = switched_rows (map_of (pt_table table)) c tip F n"
    "btree_ok (pt_table table1)" "pt_window table1 = w"
    using switch_rows [of table tip n c M F, OF ok assms(4,5,7) F, folded table1_def] assms(10) by simp_all
  have update: "update_proposal_table db w table fork = reload_proposal_table db w table1 fork"
    unfolding update_proposal_table_def Let_def assms(8,9) table1_def ..
  show thesis
  proof (cases "c < tip")
    case True
    then have "detached_blocks fork \<noteq> []" "b_number (hd (detached_blocks fork)) = word_of_nat (Suc c)"
      using assms(9) assms(7) [of "Suc c"] by (simp_all add: hd_map del: of_nat_Suc upt_Suc)
    moreover have "attached_blocks fork = [] \<and> n = c \<or> attached_blocks fork \<noteq> [] \<and> b_number (last (attached_blocks fork)) = word_of_nat n"
      using assms(3,8) F [of n] by (cases "c = n") (simp_all add: last_map)
    ultimately obtain table' where t: "reload_proposal_table db w table1 fork = Some table'" "pt_window table' = pt_window table1"
      "btree_ok (pt_table table')"
      "\<And>k. map_of (pt_table table') k =
         (if 1 \<le> unat k \<and> n + 1 \<le> unat k + unat (farthest w) \<and> unat k \<le> c then Some (union_proposal_ids (?M (unat k)))
          else map_of (pt_table table1) k)"
      by (rule reload_rows [OF 1(2) assms(6,3,5)]) (rule that)
    have "table_tracks table' ?M n"
      using t(2-4) 1 assms(10)
      by (intro tracks_after_switch [OF assms(1,2,5,4), where P = "\<lambda>i. 1 \<le> i \<and> n + 1 \<le> i + unat (farthest w) \<and> i \<le> c"])
        (auto simp: assms(3))
    then show thesis using update t(1,2) 1(3) by (intro that [of table']) simp_all
  next
    case False
    then have "reload_proposal_table db w table1 fork = Some table1"
      using assms(9) by (simp add: reload_proposal_table_def)
    moreover have "table_tracks table1 ?M n"
      using 1 assms(2,10,11) False
      by (intro tracks_after_switch [OF assms(1,2,5,4), where P = "\<lambda>i. False"]) (auto simp: assms(3))
    ultimately show thesis using update 1(3) by (intro that [of table1]) simp_all
  qed
qed

subsection \<open>A node that starts on a stored chain\<close>

lemma stored_ids_of_block:
  assumes "expect_block db (b_hash b) = Some b" "get_block_header db (b_hash b) = Some (b_header b)" "\<not> is_frozen db (b_number b)"
  shows "stored_proposal_ids db (b_hash b) = union_proposal_ids b"
proof -
  have "get_unfrozen_parts db (b_hash b) (b_header b) = Some (Some b)"
    using assms by (auto simp: expect_block_def get_block_def split: option.splits)
  then have "get_block_uncles db (b_hash b) = Some (b_uncles b)" "get_block_proposal_txs_ids db (b_hash b) = Some (b_proposals b)"
    by (cases b; auto simp: get_unfrozen_parts_def new_unchecked_def split: option.splits)+
  then show ?thesis by (simp add: stored_proposal_ids_def union_proposal_ids_def)
qed

lemma fold_init_rows:
  assumes "\<And>bn. bn \<in> set ns \<Longrightarrow> get_block_hash db bn = Some (h bn)"
  shows "fold (\<lambda>bn table. case get_block_hash db bn of
        Some hash \<Rightarrow> fst (proposal_table_insert table bn (stored_proposal_ids db hash)) | None \<Rightarrow> table) ns table =
    fold (\<lambda>bn table. fst (proposal_table_insert table bn (stored_proposal_ids db (h bn)))) ns table"
  using assms by (induction ns arbitrary: table) simp_all

text \<open>What the stored main chain needs for the table to be rebuilt from it.\<close>

definition chain_readable :: "ChainDB \<Rightarrow> (nat \<Rightarrow> BlockView) \<Rightarrow> nat \<Rightarrow> bool" where
  "chain_readable db M tip \<longleftrightarrow> main_chain db M tip \<and> union_proposal_ids (M 0) = {} \<and>
     (\<forall>i\<le>tip. get_block_header db (b_hash (M i)) = Some (b_header (M i)) \<and> \<not> is_frozen db (b_number (M i))) \<and>
     get_tip_header db = Some (b_header (M tip))"

lemma init_tracks:
  assumes "chain_readable db M tip" "Suc tip < 2 ^ 64" "window_ok w"
  defines "table \<equiv> fold (\<lambda>bn table. case get_block_hash db bn of
        Some hash \<Rightarrow> fst (proposal_table_insert table bn (stored_proposal_ids db hash)) | None \<Rightarrow> table)
      (number_range (saturating_sub (word_of_nat tip) (farthest w)) (word_of_nat tip)) (proposal_table_new w)"
  shows "table_tracks table M tip" "pt_window table = w"
proof -
  let ?start = "saturating_sub (word_of_nat tip) (farthest w)"
  have u: "unat (word_of_nat tip :: u64) = tip" using assms(2) by (simp add: word_of_nat_u64)
  have range: "k \<in> set (number_range ?start (word_of_nat tip)) \<longleftrightarrow> tip - unat (farthest w) \<le> unat k \<and> unat k \<le> tip" for k
    by (simp add: number_range_set word_le_nat_alt unat_saturating_sub u)
  have chain: "get_block_hash db k = Some (b_hash (M (unat k)))"
    "stored_proposal_ids db (b_hash (M (unat k))) = union_proposal_ids (M (unat k))" if "unat k \<le> tip" for k
  proof -
    have M: "get_block_hash db (word_of_nat (unat k)) = Some (b_hash (M (unat k)))"
      "expect_block db (b_hash (M (unat k))) = Some (M (unat k))"
      "get_block_header db (b_hash (M (unat k))) = Some (b_header (M (unat k)))" "\<not> is_frozen db (b_number (M (unat k)))"
      using assms(1) that unfolding chain_readable_def main_chain_def by blast+
    then show "get_block_hash db k = Some (b_hash (M (unat k)))" by simp
    show "stored_proposal_ids db (b_hash (M (unat k))) = union_proposal_ids (M (unat k))"
      using stored_ids_of_block M(2-4) by blast
  qed
  have "table = fold (\<lambda>bn table. fst (proposal_table_insert table bn (stored_proposal_ids db (b_hash (M (unat bn))))))
      (number_range ?start (word_of_nat tip)) (proposal_table_new w)"
    unfolding table_def using chain(1) range by (intro fold_init_rows) blast
  moreover have "btree_ok (pt_table (proposal_table_new w))" by (simp add: proposal_table_new_def btree_ok_def)
  ultimately have rows: "map_of (pt_table table) k = (if tip - unat (farthest w) \<le> unat k \<and> unat k \<le> tip
      then Some (union_proposal_ids (M (unat k))) else None)" "btree_ok (pt_table table)" "pt_window table = w" for k
    using fold_table_insert [of "proposal_table_new w" "\<lambda>bn. bn" "\<lambda>bn. stored_proposal_ids db (b_hash (M (unat bn)))"
        "number_range ?start (word_of_nat tip)"] chain(2) range
    by (auto simp: map_of_rev_graph map_add_def proposal_table_new_def)
  then show "table_tracks table M tip" "pt_window table = w"
    using assms(1,2) by (auto simp: table_tracks_def genesis_row_ok_def chain_readable_def word_of_nat_u64)
qed

section \<open>A sample store\<close>

text \<open>Block \<open>[1]\<close> is the tip; \<open>[2]\<close> is its sibling and \<open>[3]\<close> extends that.\<close>

definition ex_fork_block :: "u8 \<Rightarrow> u8 \<Rightarrow> u64 \<Rightarrow> BlockView" where
  "ex_fork_block h parent number =
     \<lparr>b_header = ex_header\<lparr>h_number := number, h_parent_hash := [parent], h_hash := [h]\<rparr>, b_uncles = [],
      b_transactions = [ex_tx [h] [new_cellbase_input number]], b_proposals = (if number = 0 then [] else [[h]]), b_extension = None\<rparr>"

definition ex_fork_blocks :: "byte32 \<rightharpoonup> BlockView" where
  "ex_fork_blocks = [[0] \<mapsto> ex_fork_block 0 0 0, [1] \<mapsto> ex_fork_block 1 0 1, [2] \<mapsto> ex_fork_block 2 0 1, [3] \<mapsto> ex_fork_block 3 2 2]"

definition ex_fork_ext :: BlockExt where
  "ex_fork_ext = \<lparr>be_received_at = 0, be_total_difficulty = 5, be_total_uncles_count = 0, be_verified = None, be_txs_fees = [],
     be_cycles = None, be_txs_sizes = None\<rparr>"

definition ex_fork_base :: ChainDB where
  "ex_fork_base = ex_db\<lparr>col_header := (\<lambda>h. map_option b_header (ex_fork_blocks h)),
     col_block_uncle := (\<lambda>h. map_option b_uncles (ex_fork_blocks h)),
     col_proposal_ids := (\<lambda>h. map_option b_proposals (ex_fork_blocks h)),
     col_body := (\<lambda>h. case ex_fork_blocks h of None \<Rightarrow> [] | Some b \<Rightarrow> [(0, hd (b_transactions b))]),
     col_ext := [[2] \<mapsto> ex_fork_ext], col_index := [0 \<mapsto> [0]], meta_tip := Some [1]\<rparr>"

definition ex_fork_main :: "nat \<Rightarrow> BlockView" where
  "ex_fork_main i = (if i = 0 then ex_fork_block 0 0 0 else ex_fork_block 1 0 1)"

definition ex_fork_branch :: "nat \<Rightarrow> BlockView" where
  "ex_fork_branch i = (if i = 0 then ex_fork_block 0 0 0 else if i = 1 then ex_fork_block 2 0 1 else ex_fork_block 3 2 2)"

definition ex_fork_db :: ChainDB where
  "ex_fork_db = attach_one (\<lambda>d. d) (ex_fork_block 1 0 1) ex_fork_base"

lemma ex_fork_reads: "expect_block ex_fork_base h = ex_fork_blocks h"
proof -
  have "b_extension b = None \<and> b_transactions b = [hd (b_transactions b)]" if "ex_fork_blocks h = Some b" for b
    using that by (auto simp: ex_fork_blocks_def ex_fork_block_def split: if_splits)
  then show ?thesis
    by (auto simp: expect_block_def get_block_def get_block_header_def ex_fork_base_def ex_db_def is_frozen_def get_unfrozen_parts_def
        get_block_uncles_def get_block_proposal_txs_ids_def new_unchecked_def get_block_body_def get_block_extension_def
        split: option.splits)
qed

lemma ex_fork_block_fields [simp]:
  "b_hash (ex_fork_block h p n) = [h]" "b_number (ex_fork_block h p n) = n" "b_parent_hash (ex_fork_block h p n) = [p]"
  by (simp_all add: ex_fork_block_def)

lemma ex_fork_db_reads:
  "expect_block ex_fork_db h = ex_fork_blocks h" "get_block_hash ex_fork_db = [0 \<mapsto> [0], 1 \<mapsto> [1]]"
  "get_block_ext ex_fork_db = [[2] \<mapsto> ex_fork_ext]"
proof -
  show "expect_block ex_fork_db h = ex_fork_blocks h" by (simp add: ex_fork_db_def attach_one_reads ex_fork_reads)
  show "get_block_hash ex_fork_db = [0 \<mapsto> [0], 1 \<mapsto> [1]]"
    by (simp add: ex_fork_db_def attach_one_reads) (simp add: get_block_hash_def ex_fork_base_def fun_eq_iff)
  show "get_block_ext ex_fork_db = [[2] \<mapsto> ex_fork_ext]"
    by (simp add: ex_fork_db_def get_block_ext_def attach_one_def attach_block_cell_def insert_cells_eq delete_cells_eq attach_block_eq
        ex_fork_base_def fun_eq_iff)
qed

lemma ex_fork_chains:
  "main_chain ex_fork_db ex_fork_main 1" "main_chain ex_fork_base ex_fork_main 0"
  "branch ex_fork_db ex_fork_main 1 ex_fork_branch (\<lambda>_. ex_fork_ext) 0 2"
proof -
  show "main_chain ex_fork_db ex_fork_main 1"
    by (auto simp: main_chain_def ex_fork_db_reads ex_fork_main_def ex_fork_blocks_def le_Suc_eq)
  show "main_chain ex_fork_base ex_fork_main 0"
    by (simp add: main_chain_def ex_fork_reads ex_fork_main_def ex_fork_blocks_def get_block_hash_def) (simp add: ex_fork_base_def)
  show "branch ex_fork_db ex_fork_main 1 ex_fork_branch (\<lambda>_. ex_fork_ext) 0 2"
    by (auto simp: branch_def ex_fork_db_reads ex_fork_main_def ex_fork_branch_def ex_fork_blocks_def less_2_cases_iff)
qed

lemma ex_fork_branch_reads:
  "0 < i \<Longrightarrow> i \<le> 2 \<Longrightarrow> b_number (ex_fork_branch i) = word_of_nat i \<and> ex_fork_blocks (b_hash (ex_fork_branch i)) = Some (ex_fork_branch i)"
  by (auto simp: ex_fork_branch_def ex_fork_blocks_def le_Suc_eq numeral_2_eq_2)

lemma ex_fork_attachable:
  "cells_ok (\<lambda>d. d) ex_fork_base" "attachable_all (\<lambda>d. d) [ex_fork_block 1 0 1] ex_fork_base"
proof -
  show "cells_ok (\<lambda>d. d) ex_fork_base" by (simp add: cells_ok_def ex_fork_base_def ex_db_def)
  show "attachable_all (\<lambda>d. d) [ex_fork_block 1 0 1] ex_fork_base"
    by (simp add: attachable_def block_stored_def ex_fork_base_def ex_db_def ex_fork_block_def dead_points_def is_frozen_def
        ex_fork_blocks_def ex_tx_def)
qed

section \<open>Properties\<close>

text \<open>C33. Let a new block extend a stored branch that leaves the main chain after block \<open>c\<close>. The search for the fork
  returns, and it finds the latest common ancestor: it attaches exactly the blocks \<open>c + 1\<close> to \<open>n\<close> of
  the branch and detaches exactly the blocks \<open>c + 1\<close> to the tip of the main chain, both in the order of their
  numbers. The extensions to be updated are those of a suffix of the branch that ends in the new
  block: the unverified ones above the last verified block.\<close>

theorem find_fork_latest_common:
  assumes "branch db M tip F E c n" "main_chain db M tip"
  shows "\<exists>fork v. find_fork db fork_default (word_of_nat tip) (F n) ext = Some fork \<and>
    attached_blocks fork = map F [c + 1..<n + 1] \<and> detached_blocks fork = map M [c + 1..<tip + 1] \<and>
    c \<le> v \<and> v < n \<and> dirty_exts fork = map E [v + 1..<n] @ [ext] \<and> verified_len fork = Some (v - c) \<and>
    (\<forall>i. v < i \<and> i < n \<longrightarrow> be_verified (E i) = None) \<and> (c < v \<longrightarrow> be_verified (E v) \<noteq> None)"
proof -
  obtain fork v where f:
    "find_fork db fork_default (word_of_nat tip) (F n) ext = Some fork"
    "attached_blocks fork = map F [Suc c..<Suc n]" "detached_blocks fork = map M [Suc c..<Suc tip]"
    "c \<le> v" "v < n" "dirty_exts fork = map E [Suc v..<n] @ [ext]"
    "\<And>i. v < i \<Longrightarrow> i < n \<Longrightarrow> be_verified (E i) = None" "c < v \<Longrightarrow> be_verified (E v) \<noteq> None"
    by (rule find_fork_search [OF assms]) (rule that)
  then have "verified_len fork = Some (v - c)" by (simp add: verified_len_def del: upt_Suc)
  then show ?thesis using f by (intro exI [of _ fork] exI [of _ v]) (simp del: upt_Suc)
qed

theorem find_fork_latest_common_witness:
  "\<exists>fork. find_fork ex_fork_db fork_default 1 (ex_fork_block 3 2 2) ex_fork_ext = Some fork \<and>
     attached_blocks fork = [ex_fork_block 2 0 1, ex_fork_block 3 2 2] \<and> detached_blocks fork = [ex_fork_block 1 0 1]"
  using find_fork_latest_common [OF ex_fork_chains(3,1), of ex_fork_ext]
  by (auto simp: ex_fork_branch_def ex_fork_main_def upt_rec)

text \<open>C32. Switching to a branch: let the store be the result of attaching the blocks after \<open>c\<close> of the main chain
  to a store \<open>base\<close>. Rolling back the fork that the search finds restores \<open>base\<close> exactly, with
  every column, all live cells and all transaction locations as they were. Attaching the blocks of the branch then gives a
  store whose main chain is the old one up to \<open>c\<close> and the branch above it.\<close>

theorem reorg_switches_chain:
  assumes "branch db M tip F E c n" "main_chain db M tip" "main_chain base M c" "Suc n < 2 ^ 64"
    and "db = fold (attach_one data_hash) (map M [c + 1..<tip + 1]) base"
    and "cells_ok data_hash base" "attachable_all data_hash (map M [c + 1..<tip + 1]) base"
    and "\<And>i. c < i \<Longrightarrow> i \<le> n \<Longrightarrow> b_number (F i) = word_of_nat i \<and> expect_block db (b_hash (F i)) = Some (F i)"
  shows "\<exists>fork. find_fork db fork_default (word_of_nat tip) (F n) ext = Some fork \<and> rollback data_hash fork db = Some base \<and>
    main_chain (fold (attach_one data_hash) (attached_blocks fork) base) (\<lambda>i. if i \<le> c then M i else F i) n"
proof -
  obtain fork where f:
    "find_fork db fork_default (word_of_nat tip) (F n) ext = Some fork"
    "attached_blocks fork = map F [Suc c..<Suc n]" "detached_blocks fork = map M [Suc c..<Suc tip]"
    by (rule find_fork_search [OF assms(1,2)]) (rule that)
  have "rollback data_hash fork db = Some base"
    unfolding rollback_def f(3) using rollback_attached [OF assms(6,7)] assms(5) by simp
  moreover have "main_chain (fold (attach_one data_hash) (map F [Suc c..<Suc n]) base) (\<lambda>i. if i \<le> c then M i else F i) n"
    using assms(1,8) unfolding assms(5) attach_all_reads(1)
    by (intro attach_branch_main_chain [OF assms(3,4)]) (auto simp: branch_def)
  ultimately show ?thesis using f by auto
qed

theorem reorg_switches_chain_witness:
  "\<exists>fork. find_fork ex_fork_db fork_default 1 (ex_fork_block 3 2 2) ex_fork_ext = Some fork \<and>
     rollback (\<lambda>d. d) fork ex_fork_db = Some ex_fork_base"
proof -
  have "\<exists>fork. find_fork ex_fork_db fork_default (word_of_nat 1) (ex_fork_branch 2) ex_fork_ext = Some fork \<and>
      rollback (\<lambda>d. d) fork ex_fork_db = Some ex_fork_base \<and>
      main_chain (fold (attach_one (\<lambda>d. d)) (attached_blocks fork) ex_fork_base) (\<lambda>i. if i \<le> 0 then ex_fork_main i else ex_fork_branch i) 2"
  proof (rule reorg_switches_chain [OF ex_fork_chains(3,1,2)])
    show "ex_fork_db = fold (attach_one (\<lambda>d. d)) (map ex_fork_main [0 + 1..<1 + 1]) ex_fork_base"
      "attachable_all (\<lambda>d. d) (map ex_fork_main [0 + 1..<1 + 1]) ex_fork_base"
      using ex_fork_attachable(2) by (simp_all add: ex_fork_db_def ex_fork_main_def)
    show "b_number (ex_fork_branch i) = word_of_nat i \<and> expect_block ex_fork_db (b_hash (ex_fork_branch i)) = Some (ex_fork_branch i)"
      if "0 < i" "i \<le> 2" for i
      using ex_fork_branch_reads that by (simp add: ex_fork_db_reads)
  qed (simp_all add: ex_fork_attachable(1))
  then show ?thesis by (auto simp: ex_fork_branch_def)
qed

text \<open>C34. The proposals of the transaction pool follow every switch of the main chain: if the table describes the old main chain
  in reach of the window, then after the blocks of a fork are moved (also to a shorter chain, where older rows have
  to be loaded from the store again) and the table is finalised, it describes the new main chain, the
  view proposes exactly the identifiers in blocks whose distance to the next block lies within the
  window, and its gap has exactly those in closer blocks.\<close>

theorem proposals_follow_reorg:
  assumes "table_tracks table M tip" "c \<le> tip" "c \<le> n" "tip \<le> n \<or> c < tip" "Suc tip < 2 ^ 64" "Suc n < 2 ^ 64"
    and "main_chain db (\<lambda>i. if i \<le> c then M i else F i) n" "main_chain db0 M tip"
    and "attached_blocks fork = map F [c + 1..<n + 1]" "detached_blocks fork = map M [c + 1..<tip + 1]" "window_ok (pt_window table)"
  shows "\<exists>table' table'' view. update_proposal_table db (pt_window table) table fork = Some table' \<and>
    proposal_table_finalize table' origin (word_of_nat n) = Some (table'', pv_set origin - pv_set view, view) \<and>
    table_tracks table'' (\<lambda>i. if i \<le> c then M i else F i) n \<and> pt_window table'' = pt_window table \<and>
    pv_set view = (\<Union>i\<in>{i. 1 \<le> i \<and> i \<le> n \<and> unat (closest (pt_window table)) \<le> n + 1 - i \<and>
        n + 1 - i \<le> unat (farthest (pt_window table))}. union_proposal_ids (if i \<le> c then M i else F i)) \<and>
    pv_gap view = (\<Union>i\<in>{i. 1 \<le> i \<and> i \<le> n \<and> n + 1 - i < unat (closest (pt_window table))}.
        union_proposal_ids (if i \<le> c then M i else F i))"
proof -
  let ?M = "\<lambda>i. if i \<le> c then M i else F i"
  have M: "b_number (M i) = word_of_nat i" if "c < i" "i \<le> tip" for i
    using assms(8) that by (simp add: main_chain_def)
  obtain table' where t: "update_proposal_table db (pt_window table) table fork = Some table'" "pt_window table' = pt_window table"
    "table_tracks table' ?M n"
    by (rule update_tracks [OF assms(1-3,5-7) M assms(9,10) [folded Suc_eq_plus1] refl assms(4)]) (assumption | rule that)+
  have w: "window_ok (pt_window table')" using assms(11) t(2) by simp
  obtain table'' view where "proposal_table_finalize table' origin (word_of_nat n) = Some (table'', pv_set origin - pv_set view, view)"
    "table_tracks table'' ?M n" "pt_window table'' = pt_window table'"
    "pv_set view = (\<Union>i\<in>{i. 1 \<le> i \<and> i \<le> n \<and> unat (closest (pt_window table')) \<le> n + 1 - i \<and>
        n + 1 - i \<le> unat (farthest (pt_window table'))}. union_proposal_ids (?M i))"
    "pv_gap view = (\<Union>i\<in>{i. 1 \<le> i \<and> i \<le> n \<and> n + 1 - i < unat (closest (pt_window table'))}. union_proposal_ids (?M i))"
    by (rule finalize_tracks [OF t(3) w assms(6)]) (rule that)
  then show ?thesis using t by auto
qed

definition ex_fork_table :: ProposalTable where
  "ex_fork_table = \<lparr>pt_table = [(1, {[1]})], pt_window = ProposalWindow 1 10\<rparr>"

theorem proposals_follow_reorg_witness:
  "\<exists>table' table'' view. update_proposal_table (fold (attach_one (\<lambda>d. d)) [ex_fork_block 2 0 1, ex_fork_block 3 2 2] ex_fork_base)
       (ProposalWindow 1 10) ex_fork_table
       (fork_default\<lparr>attached_blocks := [ex_fork_block 2 0 1, ex_fork_block 3 2 2], detached_blocks := [ex_fork_block 1 0 1]\<rparr>) = Some table' \<and>
     proposal_table_finalize table' empty_view 2 = Some (table'', {}, view) \<and> pv_set view = {[2], [3]}"
proof -
  let ?fork = "fork_default\<lparr>attached_blocks := [ex_fork_block 2 0 1, ex_fork_block 3 2 2], detached_blocks := [ex_fork_block 1 0 1]\<rparr>"
  let ?db = "fold (attach_one (\<lambda>d. d)) (map ex_fork_branch [Suc 0..<Suc 2]) ex_fork_base"
  let ?M = "\<lambda>i. if i \<le> 0 then ex_fork_main i else ex_fork_branch i"
  have lists: "map ex_fork_branch [Suc 0..<Suc 2] = [ex_fork_block 2 0 1, ex_fork_block 3 2 2]"
    "map ex_fork_main [0 + 1..<1 + 1] = [ex_fork_block 1 0 1]"
    by (simp_all add: ex_fork_branch_def ex_fork_main_def upt_rec)
  have tracks: "table_tracks ex_fork_table ex_fork_main 1"
    by (auto simp: table_tracks_def ex_fork_table_def btree_ok_def genesis_row_ok_def ex_fork_main_def union_proposal_ids_def
        ex_fork_block_def le_Suc_eq)
  have chain: "main_chain ?db ?M 2"
    by (rule attach_branch_main_chain [OF ex_fork_chains(2)])
      (use ex_fork_branch_reads in \<open>simp_all add: ex_fork_reads\<close>)
  have ids: "(\<Union>i\<in>{i. 1 \<le> i \<and> i \<le> 2 \<and> unat (1 :: u64) \<le> 2 + 1 - i \<and> 2 + 1 - i \<le> unat (10 :: u64)}. union_proposal_ids (?M i)) = {[2], [3]}"
  proof -
    have "{i :: nat. 1 \<le> i \<and> i \<le> 2 \<and> unat (1 :: u64) \<le> 2 + 1 - i \<and> 2 + 1 - i \<le> unat (10 :: u64)} = {1, 2}" by auto
    then show ?thesis by (auto simp: ex_fork_branch_def union_proposal_ids_def ex_fork_block_def)
  qed
  have "\<exists>table' table'' view. update_proposal_table ?db (pt_window ex_fork_table) ex_fork_table ?fork = Some table' \<and>
    proposal_table_finalize table' empty_view (word_of_nat 2) = Some (table'', pv_set empty_view - pv_set view, view) \<and>
    table_tracks table'' ?M 2 \<and> pt_window table'' = pt_window ex_fork_table \<and>
    pv_set view = (\<Union>i\<in>{i. 1 \<le> i \<and> i \<le> 2 \<and> unat (closest (pt_window ex_fork_table)) \<le> 2 + 1 - i \<and>
        2 + 1 - i \<le> unat (farthest (pt_window ex_fork_table))}. union_proposal_ids (?M i)) \<and>
    pv_gap view = (\<Union>i\<in>{i. 1 \<le> i \<and> i \<le> 2 \<and> 2 + 1 - i < unat (closest (pt_window ex_fork_table))}. union_proposal_ids (?M i))"
    by (rule proposals_follow_reorg [OF tracks _ _ _ _ _ chain ex_fork_chains(1)])
      (use lists in \<open>simp_all add: ex_fork_table_def window_ok_def\<close>)
  then show ?thesis using ids unfolding lists by (auto simp: ex_fork_table_def empty_view_def)
qed

text \<open>C35. A node that restarts on a stored chain rebuilds the same proposals as a node that has followed the chain block by
  block: the view computed from the store equals the view of any table that describes the chain.\<close>

theorem restart_rebuilds_proposals:
  assumes "chain_readable db M tip" "Suc tip < 2 ^ 64" "window_ok w" "table_tracks table M tip" "pt_window table = w"
  shows "\<exists>table0 table1 removed view. init_proposal_table db w = Some (table0, view) \<and>
    proposal_table_finalize table origin (word_of_nat tip) = Some (table1, removed, view) \<and> table_tracks table0 M tip"
proof -
  let ?table = "fold (\<lambda>bn table. case get_block_hash db bn of
        Some hash \<Rightarrow> fst (proposal_table_insert table bn (stored_proposal_ids db hash)) | None \<Rightarrow> table)
      (number_range (saturating_sub (word_of_nat tip) (farthest w)) (word_of_nat tip)) (proposal_table_new w)"
  note i = init_tracks [OF assms(1-3)]
  have tip: "get_tip_header db = Some (b_header (M tip))" "b_number (M tip) = word_of_nat tip"
    using assms(1) by (simp_all add: chain_readable_def main_chain_def)
  have w0: "window_ok (pt_window ?table)" and w1: "window_ok (pt_window table)" using i(2) assms(3,5) by simp_all
  obtain table0 view0 where 0: "proposal_table_finalize ?table empty_view (word_of_nat tip) = Some (table0, pv_set empty_view - pv_set view0, view0)"
    "table_tracks table0 M tip" "pt_window table0 = w"
    "pv_set view0 = (\<Union>i\<in>{i. 1 \<le> i \<and> i \<le> tip \<and> unat (closest w) \<le> tip + 1 - i \<and> tip + 1 - i \<le> unat (farthest w)}. union_proposal_ids (M i))"
    "pv_gap view0 = (\<Union>i\<in>{i. 1 \<le> i \<and> i \<le> tip \<and> tip + 1 - i < unat (closest w)}. union_proposal_ids (M i))"
    by (rule finalize_tracks [OF i(1) w0 assms(2), unfolded i(2)]) (rule that)
  obtain table1 view where 1: "proposal_table_finalize table origin (word_of_nat tip) = Some (table1, pv_set origin - pv_set view, view)"
    "table_tracks table1 M tip" "pt_window table1 = w"
    "pv_set view = (\<Union>i\<in>{i. 1 \<le> i \<and> i \<le> tip \<and> unat (closest w) \<le> tip + 1 - i \<and> tip + 1 - i \<le> unat (farthest w)}. union_proposal_ids (M i))"
    "pv_gap view = (\<Union>i\<in>{i. 1 \<le> i \<and> i \<le> tip \<and> tip + 1 - i < unat (closest w)}. union_proposal_ids (M i))"
    by (rule finalize_tracks [OF assms(4) w1 assms(2), unfolded assms(5)]) (rule that)
  have "view0 = view" using 0(4,5) 1(4,5) by simp
  moreover have "init_proposal_table db w = Some (table0, view0)"
    using 0(1) by (simp add: init_proposal_table_def tip Let_def)
  ultimately show ?thesis using 0(2) 1(1) by blast
qed

theorem restart_rebuilds_proposals_witness:
  "\<exists>table0 table1 removed view. init_proposal_table ex_fork_db (ProposalWindow 1 10) = Some (table0, view) \<and>
     proposal_table_finalize ex_fork_table empty_view 1 = Some (table1, removed, view)"
proof -
  have "col_header ex_fork_db = (\<lambda>h. map_option b_header (ex_fork_blocks h))" "cache_headers ex_fork_db = Map.empty"
    "meta_tip ex_fork_db = Some [1]" "freezer_number ex_fork_db = None"
    by (simp_all add: ex_fork_db_def attach_one_def attach_block_cell_def insert_cells_eq delete_cells_eq attach_block_eq ex_fork_base_def ex_db_def)
  then have "chain_readable ex_fork_db ex_fork_main 1"
    using ex_fork_chains(1)
    by (auto simp: chain_readable_def get_tip_header_def get_block_header_def ex_fork_main_def ex_fork_blocks_def is_frozen_def
        union_proposal_ids_def) (simp_all add: ex_fork_block_def)
  moreover have "table_tracks ex_fork_table ex_fork_main 1"
    by (auto simp: table_tracks_def ex_fork_table_def btree_ok_def genesis_row_ok_def ex_fork_main_def union_proposal_ids_def
        ex_fork_block_def le_Suc_eq)
  ultimately show ?thesis
    using restart_rebuilds_proposals [of ex_fork_db ex_fork_main 1 "ProposalWindow 1 10" ex_fork_table empty_view]
    by (auto simp: ex_fork_table_def window_ok_def)
qed

end
