(* ===== verification/Orphan_Pool.thy ===== *)
theory Orphan_Pool
  imports Chain_Types "HOL-Library.AList"
begin

text \<open>
  The pool of blocks that wait for their parent (\<open>chain/src/utils/orphan_block_pool.rs\<close>). The hash maps are
  association lists and the set of leaders a list: the code iterates over them in an order of its own, so
  nothing that is proved depends on the order. The queue of \<open>remove_blocks_by_parent\<close> is a recursive function that
  terminates because every parent is taken out of the map when it is visited.

  The lemmas show the invariant that ties the three maps together, that removing a leader takes out exactly the
  blocks that descend from it, and that no block is ever stranded: every block of the pool descends from a leader.
\<close>

section \<open>The pool\<close>

text \<open>A block with its hash only; the callback is represented by the identifier of its request.\<close>

record LonelyBlockHash =
  lb_number :: u64
  lb_hash :: byte32
  lb_parent_hash :: byte32
  lb_epoch_number :: u64
  lb_switch :: "u32 option"
  lb_verify_callback :: "nat option"

definition EXPIRED_EPOCH :: u64 where "EXPIRED_EPOCH = 6"

record InnerPool =
  op_blocks :: "(byte32 \<times> (byte32 \<times> LonelyBlockHash) list) list"
  op_parents :: "byte32 \<rightharpoonup> byte32"
  op_leaders :: "byte32 list"

definition orphan_pool_new :: InnerPool where
  "orphan_pool_new = \<lparr>op_blocks = [], op_parents = Map.empty, op_leaders = []\<rparr>"

definition orphan_insert :: "InnerPool \<Rightarrow> LonelyBlockHash \<Rightarrow> InnerPool" where
  "orphan_insert self lonely_block =
     (let hash = lb_hash lonely_block; parent_hash = lb_parent_hash lonely_block;
          children = (case map_of (op_blocks self) parent_hash of Some m \<Rightarrow> m | None \<Rightarrow> []);
          leaders = removeAll hash (op_leaders self)
      in \<lparr>op_blocks = AList.update parent_hash (AList.update hash lonely_block children) (op_blocks self),
          op_parents = (op_parents self)(hash \<mapsto> parent_hash),
          op_leaders = (if op_parents self parent_hash = None then List.insert parent_hash leaders else leaders)\<rparr>)"

lemma length_delete_less: "map_of xs k = Some v \<Longrightarrow> length (AList.delete k xs) < length xs"
  by (induction xs) (auto simp: AList.delete_eq less_Suc_eq_le intro: le_trans [OF length_filter_le])

function drain ::
    "(byte32 \<times> (byte32 \<times> LonelyBlockHash) list) list \<Rightarrow> (byte32 \<rightharpoonup> byte32) \<Rightarrow> byte32 list \<Rightarrow> LonelyBlockHash list \<Rightarrow>
     (byte32 \<times> (byte32 \<times> LonelyBlockHash) list) list \<times> (byte32 \<rightharpoonup> byte32) \<times> LonelyBlockHash list" where
  "drain blocks parents [] removed = (blocks, parents, removed)"
| "drain blocks parents (parent_hash # queue) removed =
     (case map_of blocks parent_hash of
       None \<Rightarrow> drain blocks parents queue removed
     | Some orphaned \<Rightarrow>
         drain (AList.delete parent_hash blocks) (fold (\<lambda>hash m. m(hash := None)) (map fst orphaned) parents)
           (queue @ map fst orphaned) (removed @ map snd orphaned))"
  by pat_completeness auto

termination
  by (relation "measures [\<lambda>(blocks, _, _, _). length blocks, \<lambda>(_, _, queue, _). length queue]")
    (auto dest: length_delete_less)

definition remove_blocks_by_parent :: "InnerPool \<Rightarrow> byte32 \<Rightarrow> InnerPool \<times> LonelyBlockHash list" where
  "remove_blocks_by_parent self parent_hash =
     (if parent_hash \<notin> set (op_leaders self) then (self, [])
      else (case drain (op_blocks self) (op_parents self) [parent_hash] [] of
        (blocks, parents, removed) \<Rightarrow>
          (\<lparr>op_blocks = blocks, op_parents = parents, op_leaders = removeAll parent_hash (op_leaders self)\<rparr>, removed)))"

definition orphan_get_block :: "InnerPool \<Rightarrow> byte32 \<Rightarrow> LonelyBlockHash option" where
  "orphan_get_block self hash =
     Option.bind (op_parents self hash) (\<lambda>parent_hash.
     Option.bind (map_of (op_blocks self) parent_hash) (\<lambda>blocks. map_of blocks hash))"

definition need_clean :: "InnerPool \<Rightarrow> byte32 \<Rightarrow> u64 \<Rightarrow> bool" where
  "need_clean self parent_hash tip_epoch =
     (case map_of (op_blocks self) parent_hash of
       Some ((_, lonely_block) # _) \<Rightarrow> saturating_sub tip_epoch (lb_epoch_number lonely_block) > EXPIRED_EPOCH
     | _ \<Rightarrow> False)"

definition clean_expired_blocks :: "InnerPool \<Rightarrow> u64 \<Rightarrow> InnerPool \<times> LonelyBlockHash list" where
  "clean_expired_blocks self tip_epoch =
     fold (\<lambda>hash (pool, result).
         if need_clean pool hash tip_epoch
         then (case remove_blocks_by_parent pool hash of (pool', descendants) \<Rightarrow> (pool', result @ descendants))
         else (pool, result))
       (op_leaders self) (self, [])"

text \<open>\<open>len\<close> counts the keys of the map of parents.\<close>

definition orphan_len :: "InnerPool \<Rightarrow> nat" where
  "orphan_len self = card (dom (op_parents self))"

section \<open>The invariant\<close>

text \<open>The children recorded for a parent.\<close>

definition children_of :: "InnerPool \<Rightarrow> byte32 \<Rightarrow> byte32 \<rightharpoonup> LonelyBlockHash" where
  "children_of self p = (case map_of (op_blocks self) p of Some m \<Rightarrow> map_of m | None \<Rightarrow> Map.empty)"

definition pool_ok :: "InnerPool \<Rightarrow> bool" where
  "pool_ok self \<longleftrightarrow>
     distinct (map fst (op_blocks self)) \<and> distinct (op_leaders self) \<and>
     (\<forall>p m. map_of (op_blocks self) p = Some m \<longrightarrow> m \<noteq> [] \<and> distinct (map fst m)) \<and>
     (\<forall>p h lb. children_of self p h = Some lb \<longrightarrow> lb_hash lb = h \<and> lb_parent_hash lb = p) \<and>
     (\<forall>p h. op_parents self h = Some p \<longleftrightarrow> children_of self p h \<noteq> None) \<and>
     set (op_leaders self) = {p. map_of (op_blocks self) p \<noteq> None \<and> op_parents self p = None}"

lemma pool_ok_new: "pool_ok orphan_pool_new"
  by (simp add: pool_ok_def orphan_pool_new_def children_of_def)

lemma children_of_insert:
  "children_of (orphan_insert self lb) p h =
     (if p = lb_parent_hash lb \<and> h = lb_hash lb then Some lb else children_of self p h)"
  by (simp add: children_of_def orphan_insert_def Let_def AList.update_conv' split: option.splits)

lemma orphan_insert_parents [simp]: "op_parents (orphan_insert self lb) = (op_parents self)(lb_hash lb \<mapsto> lb_parent_hash lb)"
  by (simp add: orphan_insert_def Let_def)

lemma pool_ok_insert:
  assumes "pool_ok self" "lb_hash lb \<noteq> lb_parent_hash lb"
    and "\<And>p. op_parents self (lb_hash lb) = Some p \<Longrightarrow> p = lb_parent_hash lb"
  shows "pool_ok (orphan_insert self lb)"
  unfolding pool_ok_def
proof (intro conjI allI impI)
  let ?self = "orphan_insert self lb" and ?h = "lb_hash lb" and ?p = "lb_parent_hash lb"
  have ok: "distinct (map fst (op_blocks self))" "distinct (op_leaders self)"
    "\<And>p m. map_of (op_blocks self) p = Some m \<Longrightarrow> m \<noteq> [] \<and> distinct (map fst m)"
    "\<And>p h lb. children_of self p h = Some lb \<Longrightarrow> lb_hash lb = h \<and> lb_parent_hash lb = p"
    "\<And>p h. op_parents self h = Some p \<longleftrightarrow> children_of self p h \<noteq> None"
    "set (op_leaders self) = {p. map_of (op_blocks self) p \<noteq> None \<and> op_parents self p = None}"
    using assms(1) unfolding pool_ok_def by blast+
  show "distinct (map fst (op_blocks ?self))"
    using ok(1) by (simp add: orphan_insert_def Let_def AList.distinct_update)
  show "distinct (op_leaders ?self)"
    using ok(2) by (simp add: orphan_insert_def Let_def distinct_removeAll)
  fix p m assume m: "map_of (op_blocks ?self) p = Some m"
  have new: "op_blocks ?self = AList.update ?p (AList.update ?h lb
      (case map_of (op_blocks self) ?p of Some m \<Rightarrow> m | None \<Rightarrow> [])) (op_blocks self)"
    by (simp add: orphan_insert_def Let_def)
  show "m \<noteq> []" "distinct (map fst m)"
    using m ok(3) [of p m] ok(3) [of ?p]
    by (auto simp: new AList.update_conv' AList.distinct_update split: if_splits option.splits)
next
  fix p h lb' assume "children_of (orphan_insert self lb) p h = Some lb'"
  then show "lb_hash lb' = h" "lb_parent_hash lb' = p"
    using assms(1) by (auto simp: children_of_insert pool_ok_def split: if_splits)
next
  fix p h
  have "op_parents self h = Some p \<longleftrightarrow> children_of self p h \<noteq> None" using assms(1) by (simp add: pool_ok_def)
  then show "op_parents (orphan_insert self lb) h = Some p \<longleftrightarrow> children_of (orphan_insert self lb) p h \<noteq> None"
    using assms(3) by (auto simp: children_of_insert)
next
  have "set (op_leaders self) = {p. map_of (op_blocks self) p \<noteq> None \<and> op_parents self p = None}"
    using assms(1) by (simp add: pool_ok_def)
  then show "set (op_leaders (orphan_insert self lb)) =
      {p. map_of (op_blocks (orphan_insert self lb)) p \<noteq> None \<and> op_parents (orphan_insert self lb) p = None}"
    using assms(2) by (auto simp: orphan_insert_def Let_def AList.update_conv')
qed

section \<open>Descendants\<close>

text \<open>The edges from a parent to the blocks recorded under it, and what the queue reaches.\<close>

definition edges :: "(byte32 \<times> (byte32 \<times> LonelyBlockHash) list) list \<Rightarrow> (byte32 \<times> byte32) set" where
  "edges blocks = {(p, h). \<exists>m. map_of blocks p = Some m \<and> h \<in> fst ` set m}"

definition reached :: "(byte32 \<times> (byte32 \<times> LonelyBlockHash) list) list \<Rightarrow> byte32 list \<Rightarrow> byte32 set" where
  "reached blocks queue = (edges blocks)\<^sup>* `` set queue"

lemma edges_delete: "edges (AList.delete p blocks) = edges blocks - {p} \<times> UNIV"
  by (auto simp: edges_def AList.delete_conv' split: if_splits)

lemma reached_none:
  assumes "map_of blocks p = None"
  shows "reached blocks (p # queue) = insert p (reached blocks queue)"
proof -
  have "(edges blocks)\<^sup>* `` {p} = {p}"
    using assms by (auto simp: edges_def elim: converse_rtranclE)
  then show ?thesis by (auto simp: reached_def)
qed

lemma reached_some:
  assumes "map_of blocks p = Some m"
  shows "reached blocks (p # queue) = insert p (reached (AList.delete p blocks) (queue @ map fst m))" (is "?L = insert p ?R")
proof
  have sub: "(edges (AList.delete p blocks))\<^sup>* \<subseteq> (edges blocks)\<^sup>*"
    by (intro rtrancl_mono) (auto simp: edges_delete)
  show "insert p ?R \<subseteq> ?L"
  proof
    fix x assume "x \<in> insert p ?R"
    then consider "x = p" | q where "q \<in> set queue" "(q, x) \<in> (edges blocks)\<^sup>*"
      | q where "q \<in> set (map fst m)" "(q, x) \<in> (edges blocks)\<^sup>*"
      using sub by (auto simp: reached_def)
    then show "x \<in> ?L"
    proof cases
      case 3
      then have "(p, q) \<in> edges blocks" using assms by (simp add: edges_def)
      then show ?thesis using 3(2) by (auto simp: reached_def intro: converse_rtrancl_into_rtrancl)
    qed (auto simp: reached_def)
  qed
  show "?L \<subseteq> insert p ?R"
  proof
    fix x assume "x \<in> ?L"
    then obtain q where "q \<in> set (p # queue)" "(q, x) \<in> (edges blocks)\<^sup>*" by (auto simp: reached_def)
    from this(2,1) show "x \<in> insert p ?R"
    proof (induction rule: rtrancl_induct)
      case base
      then show ?case by (auto simp: reached_def)
    next
      case (step y z)
      show ?case
      proof (cases "y = p")
        case True
        then have "z \<in> set (map fst m)" using step(2) assms by (simp add: edges_def)
        then show ?thesis by (auto simp: reached_def)
      next
        case False
        then have "y \<in> ?R" "(y, z) \<in> edges (AList.delete p blocks)" using step by (auto simp: edges_delete)
        then show ?thesis by (auto simp: reached_def intro: rtrancl_into_rtrancl)
      qed
    qed
  qed
qed

lemma fold_map_None: "fold (\<lambda>h m. m(h := None)) hs m = m |` (- set hs)"
  by (induction hs arbitrary: m) (auto simp: restrict_map_def fun_eq_iff)

text \<open>The blocks recorded under a set of parents.\<close>

definition owned :: "(byte32 \<times> (byte32 \<times> LonelyBlockHash) list) list \<Rightarrow> byte32 set \<Rightarrow> LonelyBlockHash set" where
  "owned blocks A = {lb. \<exists>q\<in>A. \<exists>m. map_of blocks q = Some m \<and> lb \<in> snd ` set m}"

lemma owned_simps:
  "owned (AList.delete p blocks) A = owned blocks (A - {p})"
  "map_of blocks p = Some m \<Longrightarrow> owned blocks (insert p A) = snd ` set m \<union> owned blocks (A - {p})"
  "map_of blocks p = None \<Longrightarrow> owned blocks (insert p A) = owned blocks A"
proof -
  show "owned (AList.delete p blocks) A = owned blocks (A - {p})"
    by (auto simp: owned_def AList.delete_conv' split: if_splits)
  show "map_of blocks p = None \<Longrightarrow> owned blocks (insert p A) = owned blocks A" by (auto simp: owned_def)
  assume "map_of blocks p = Some m"
  then have "owned blocks {p} = snd ` set m" by (simp add: owned_def)
  moreover have "owned blocks (insert p A) = owned blocks {p} \<union> owned blocks (A - {p})" by (auto simp: owned_def)
  ultimately show "owned blocks (insert p A) = snd ` set m \<union> owned blocks (A - {p})" by simp
qed

lemma edges_Image_simps:
  "edges (AList.delete p blocks) `` A = edges blocks `` (A - {p})"
  "map_of blocks p = Some m \<Longrightarrow> edges blocks `` insert p A = set (map fst m) \<union> edges blocks `` (A - {p})"
  "map_of blocks p = None \<Longrightarrow> edges blocks `` insert p A = edges blocks `` A"
proof -
  show "edges (AList.delete p blocks) `` A = edges blocks `` (A - {p})" by (auto simp: edges_delete)
  show "map_of blocks p = None \<Longrightarrow> edges blocks `` insert p A = edges blocks `` A" by (auto simp: edges_def)
  assume "map_of blocks p = Some m"
  then have "edges blocks `` {p} = set (map fst m)" by (auto simp: edges_def)
  moreover have "edges blocks `` insert p A = edges blocks `` {p} \<union> edges blocks `` (A - {p})" by auto
  ultimately show "edges blocks `` insert p A = set (map fst m) \<union> edges blocks `` (A - {p})" by simp
qed

lemma drain_spec:
  assumes "distinct (map fst blocks)" "drain blocks parents queue removed = (blocks', parents', removed')"
  shows "map_of blocks' = map_of blocks |` (- reached blocks queue) \<and>
    parents' = parents |` (- (edges blocks `` reached blocks queue)) \<and>
    set removed' = set removed \<union> owned blocks (reached blocks queue) \<and> distinct (map fst blocks')"
  using assms
proof (induction blocks parents queue removed arbitrary: blocks' parents' removed' rule: drain.induct)
  case (1 blocks parents removed)
  then show ?case by (auto simp: reached_def owned_def)
next
  case (2 blocks parents p queue removed)
  show ?case
  proof (cases "map_of blocks p")
    case None
    then have IH: "map_of blocks' = map_of blocks |` (- reached blocks queue)"
      "parents' = parents |` (- (edges blocks `` reached blocks queue))"
      "set removed' = set removed \<union> owned blocks (reached blocks queue)" "distinct (map fst blocks')"
      using 2(1) [OF None 2(3)] 2(4) None by simp_all
    have "map_of blocks |` (- reached blocks queue) = map_of blocks |` (- insert p (reached blocks queue))"
      using None by (auto simp: restrict_map_def fun_eq_iff)
    then show ?thesis
      using IH unfolding reached_none [OF None] edges_Image_simps(3) [OF None] owned_simps(3) [OF None] by simp
  next
    case (Some m)
    let ?blocks = "AList.delete p blocks" and ?queue = "queue @ map fst m"
    let ?parents = "fold (\<lambda>hash m. m(hash := None)) (map fst m) parents"
    have IH: "map_of blocks' = map_of ?blocks |` (- reached ?blocks ?queue)"
      "parents' = ?parents |` (- (edges ?blocks `` reached ?blocks ?queue))"
      "set removed' = set (removed @ map snd m) \<union> owned ?blocks (reached ?blocks ?queue)"
      "distinct (map fst blocks')"
      using 2(2) [OF Some] 2(3,4) Some by (simp_all add: AList.distinct_delete)
    have "map_of ?blocks |` (- R) = map_of blocks |` (- insert p R)" for R
      by (simp add: AList.delete_conv' restrict_map_def fun_eq_iff)
    moreover have "?parents |` (- E) = parents |` (- (set (map fst m) \<union> E))" for E
      by (simp add: fold_map_None restrict_map_def fun_eq_iff)
    ultimately show ?thesis
      using IH unfolding reached_some [OF Some] edges_Image_simps(2) [OF Some] owned_simps(2) [OF Some] edges_Image_simps(1) owned_simps(1)
      by (simp add: Un_assoc)
  qed
qed

lemma edges_children: "(p, h) \<in> edges (op_blocks self) \<longleftrightarrow> children_of self p h \<noteq> None"
proof (cases "map_of (op_blocks self) p")
  case None
  then show ?thesis by (simp add: edges_def children_of_def)
next
  case (Some m)
  then show ?thesis using map_of_eq_None_iff [of m h] by (simp add: edges_def children_of_def)
qed

lemma pool_edges: "pool_ok self \<Longrightarrow> (p, h) \<in> edges (op_blocks self) \<longleftrightarrow> op_parents self h = Some p"
  unfolding edges_children pool_ok_def by blast

lemma pool_owned:
  assumes "pool_ok self"
  shows "lb \<in> owned (op_blocks self) A \<longleftrightarrow> (\<exists>q\<in>A. children_of self q (lb_hash lb) = Some lb)"
proof
  assume "lb \<in> owned (op_blocks self) A"
  then obtain q m h where m: "q \<in> A" "map_of (op_blocks self) q = Some m" "(h, lb) \<in> set m" by (auto simp: owned_def)
  then have "children_of self q h = Some lb" using assms by (simp add: children_of_def pool_ok_def)
  moreover then have "lb_hash lb = h" using assms unfolding pool_ok_def by blast
  ultimately show "\<exists>q\<in>A. children_of self q (lb_hash lb) = Some lb" using m(1) by auto
next
  assume "\<exists>q\<in>A. children_of self q (lb_hash lb) = Some lb"
  then show "lb \<in> owned (op_blocks self) A"
    by (force simp: owned_def children_of_def dest: map_of_SomeD split: option.splits)
qed

text \<open>What is left of the pool when a leader has been removed.\<close>

lemma remove_leader:
  assumes "pool_ok self" "p \<in> set (op_leaders self)"
  obtains self' removed where "remove_blocks_by_parent self p = (self', removed)"
    "op_parents self' = op_parents self |` (- {h. (p, h) \<in> (edges (op_blocks self))\<^sup>+})"
    "\<And>q. children_of self' q = (if (p, q) \<in> (edges (op_blocks self))\<^sup>* then Map.empty else children_of self q)"
    "\<And>lb. lb \<in> set removed \<longleftrightarrow> (\<exists>q. (p, q) \<in> (edges (op_blocks self))\<^sup>* \<and> children_of self q (lb_hash lb) = Some lb)"
    "pool_ok self'"
proof -
  let ?E = "edges (op_blocks self)"
  obtain blocks parents removed where d: "drain (op_blocks self) (op_parents self) [p] [] = (blocks, parents, removed)"
    by (metis prod_cases3)
  define self' where "self' = \<lparr>op_blocks = blocks, op_parents = parents, op_leaders = removeAll p (op_leaders self)\<rparr>"
  have "distinct (map fst (op_blocks self))" using assms(1) by (simp add: pool_ok_def)
  note spec = drain_spec [OF this d]
  have reach: "reached (op_blocks self) [p] = {q. (p, q) \<in> ?E\<^sup>*}" by (auto simp: reached_def)
  have below: "?E `` {q. (p, q) \<in> ?E\<^sup>*} = {h. (p, h) \<in> ?E\<^sup>+}" by (auto simp: trancl_unfold_right)
  have eq: "remove_blocks_by_parent self p = (self', removed)"
    using assms(2) by (simp add: remove_blocks_by_parent_def d self'_def del: drain.simps)
  have parents: "op_parents self' = op_parents self |` (- {h. (p, h) \<in> ?E\<^sup>+})"
    using spec by (simp add: self'_def reach below)
  have blocks: "map_of (op_blocks self') q = (if (p, q) \<in> ?E\<^sup>* then None else map_of (op_blocks self) q)" for q
    using spec by (simp add: self'_def reach restrict_map_def)
  have children: "children_of self' q = (if (p, q) \<in> ?E\<^sup>* then Map.empty else children_of self q)" for q
    by (simp add: children_of_def blocks)
  have removed: "lb \<in> set removed \<longleftrightarrow> (\<exists>q. (p, q) \<in> ?E\<^sup>* \<and> children_of self q (lb_hash lb) = Some lb)" for lb
    using spec pool_owned [OF assms(1), of lb "{q. (p, q) \<in> ?E\<^sup>*}"] by (simp add: reach)
  have "pool_ok self'"
    unfolding pool_ok_def
  proof (intro conjI allI impI)
    show "distinct (map fst (op_blocks self'))" "distinct (op_leaders self')"
      using spec assms(1) by (simp_all add: self'_def pool_ok_def distinct_removeAll)
    show "m \<noteq> []" "distinct (map fst m)" if "map_of (op_blocks self') q = Some m" for q m
      using that assms(1) by (auto simp: blocks pool_ok_def split: if_splits)
    show "lb_hash lb = h" "lb_parent_hash lb = q" if "children_of self' q h = Some lb" for q h lb
      using that assms(1) by (auto simp: children pool_ok_def split: if_splits)
    show "op_parents self' h = Some q \<longleftrightarrow> children_of self' q h \<noteq> None" for q h
    proof (cases "op_parents self h = Some q")
      case True
      then have "(q, h) \<in> ?E" using pool_edges [OF assms(1)] by blast
      moreover have "(p, q) \<in> ?E\<^sup>*" if down: "(p, h) \<in> ?E\<^sup>+"
      proof -
        obtain r where "(p, r) \<in> ?E\<^sup>*" "(r, h) \<in> ?E" using down by (auto simp: trancl_unfold_right)
        then show ?thesis using True pool_edges [OF assms(1), of r h] by simp
      qed
      ultimately show ?thesis
        using True edges_children [of q h self] by (auto simp: parents children restrict_map_def intro: rtrancl_into_trancl1)
    next
      case False
      then show ?thesis
        using edges_children [of q h self] pool_edges [OF assms(1), of q h] by (auto simp: parents children restrict_map_def)
    qed
    show "set (op_leaders self') = {q. map_of (op_blocks self') q \<noteq> None \<and> op_parents self' q = None}"
    proof -
      have "set (op_leaders self') = {q. map_of (op_blocks self) q \<noteq> None \<and> op_parents self q = None} - {p}"
        using assms(1) by (simp add: self'_def pool_ok_def)
      moreover have "(p, q) \<notin> ?E\<^sup>+" if "op_parents self q = None" for q
        using that pool_edges [OF assms(1), of _ q] by (auto elim: tranclE)
      ultimately show ?thesis
        by (auto simp: blocks parents restrict_map_def rtrancl_eq_or_trancl)
    qed
  qed
  with eq parents children removed show thesis by (rule that)
qed

lemma remove_keeps_ok: "pool_ok self \<Longrightarrow> pool_ok (fst (remove_blocks_by_parent self p))"
proof (cases "p \<in> set (op_leaders self)")
  case True
  assume "pool_ok self"
  from remove_leader [OF this True] show ?thesis by (metis fst_conv)
qed (simp add: remove_blocks_by_parent_def)

lemma clean_keeps_ok:
  assumes "pool_ok self"
  shows "pool_ok (fst (clean_expired_blocks self e))"
proof -
  have "pool_ok (fst (fold (\<lambda>hash (pool, result).
         if need_clean pool hash e
         then (case remove_blocks_by_parent pool hash of (pool', descendants) \<Rightarrow> (pool', result @ descendants))
         else (pool, result)) hs (pool, r)))" if "pool_ok pool" for hs pool r
    using that
  proof (induction hs arbitrary: pool r)
    case (Cons h hs)
    then show ?case using remove_keeps_ok [of pool h] by (auto split: prod.splits)
  qed simp
  then show ?thesis using assms by (simp add: clean_expired_blocks_def)
qed

text \<open>The pools the operations lead to. A hash determines the parent it was computed from.\<close>

inductive orphan_reachable :: "InnerPool \<Rightarrow> bool" where
  new: "orphan_reachable orphan_pool_new"
| insert: "orphan_reachable self \<Longrightarrow> lb_hash lb \<noteq> lb_parent_hash lb \<Longrightarrow>
    (\<forall>p. op_parents self (lb_hash lb) = Some p \<longrightarrow> p = lb_parent_hash lb) \<Longrightarrow> orphan_reachable (orphan_insert self lb)"
| remove: "orphan_reachable self \<Longrightarrow> orphan_reachable (fst (remove_blocks_by_parent self p))"
| clean: "orphan_reachable self \<Longrightarrow> orphan_reachable (fst (clean_expired_blocks self e))"

lemma orphan_reachable_ok: "orphan_reachable self \<Longrightarrow> pool_ok self"
  by (induction rule: orphan_reachable.induct) (simp_all add: pool_ok_new pool_ok_insert remove_keeps_ok clean_keeps_ok)

text \<open>Following parents upwards from a block of the pool ends in a leader.\<close>

lemma block_below_leader:
  assumes "pool_ok self" "\<And>h p. op_parents self h = Some p \<Longrightarrow> rank p < (rank h :: nat)" "op_parents self h \<noteq> None"
  obtains p where "p \<in> set (op_leaders self)" "(p, h) \<in> (edges (op_blocks self))\<^sup>+"
  using assms(3)
proof (induction "rank h" arbitrary: h thesis rule: less_induct)
  case less
  obtain p where p: "op_parents self h = Some p" using less.prems(2) by blast
  then have e: "(p, h) \<in> edges (op_blocks self)" using pool_edges [OF assms(1)] by blast
  show ?case
  proof (cases "op_parents self p")
    case None
    then have "p \<in> set (op_leaders self)"
      using e assms(1) by (auto simp: pool_ok_def edges_def)
    then show ?thesis using e by (intro less.prems(1)) auto
  next
    case (Some q)
    then show ?thesis using less.hyps [OF assms(2) [OF p]] e less.prems(1) by (metis option.distinct(1) trancl.trancl_into_trancl)
  qed
qed

lemma get_block_children:
  assumes "pool_ok self"
  shows "orphan_get_block self h = Some lb \<longleftrightarrow> children_of self (lb_parent_hash lb) h = Some lb"
proof
  assume "orphan_get_block self h = Some lb"
  then obtain p m where "op_parents self h = Some p" "map_of (op_blocks self) p = Some m" "map_of m h = Some lb"
    by (auto simp: orphan_get_block_def Option.bind_eq_Some_conv)
  moreover then have "children_of self p h = Some lb" by (simp add: children_of_def)
  moreover then have "lb_parent_hash lb = p" using assms unfolding pool_ok_def by blast
  ultimately show "children_of self (lb_parent_hash lb) h = Some lb" by simp
next
  assume c: "children_of self (lb_parent_hash lb) h = Some lb"
  then have "op_parents self h = Some (lb_parent_hash lb)" using assms unfolding pool_ok_def by blast
  then show "orphan_get_block self h = Some lb"
    using c by (auto simp: orphan_get_block_def children_of_def split: option.splits)
qed

lemma pool_ok_parents:
  assumes "pool_ok self"
  shows "op_parents self h = Some p \<longleftrightarrow> (\<exists>lb. orphan_get_block self h = Some lb \<and> lb_hash lb = h \<and> lb_parent_hash lb = p)"
proof -
  have "op_parents self h = Some p \<longleftrightarrow> (\<exists>lb. children_of self p h = Some lb)"
    using assms by (auto simp: pool_ok_def)
  moreover have "children_of self p h = Some lb \<Longrightarrow> lb_hash lb = h \<and> lb_parent_hash lb = p" for lb
    using assms unfolding pool_ok_def by blast
  ultimately show ?thesis unfolding get_block_children [OF assms] by blast
qed

lemma pool_ok_leaders:
  assumes "pool_ok self"
  shows "p \<in> set (op_leaders self) \<longleftrightarrow> op_parents self p = None \<and> (\<exists>child. op_parents self child = Some p)"
proof -
  have "map_of (op_blocks self) p \<noteq> None \<longleftrightarrow> (\<exists>child. (p, child) \<in> edges (op_blocks self))"
  proof (cases "map_of (op_blocks self) p")
    case None
    then show ?thesis by (simp add: edges_def)
  next
    case (Some m)
    then have "m \<noteq> []" using assms by (simp add: pool_ok_def)
    then show ?thesis using Some by (cases m) (auto simp: edges_def)
  qed
  then show ?thesis using assms pool_edges [OF assms] by (simp add: pool_ok_def conj_commute)
qed

text \<open>The blocks that leave the pool with a leader and the blocks that stay.\<close>

lemma removed_blocks:
  assumes "pool_ok self"
    and "\<And>lb. lb \<in> set removed \<longleftrightarrow> (\<exists>q. (p, q) \<in> {(q, h). op_parents self h = Some q}\<^sup>* \<and> children_of self q (lb_hash lb) = Some lb)"
  shows "b \<in> set removed \<longleftrightarrow>
    orphan_get_block self (lb_hash b) = Some b \<and> (p, lb_hash b) \<in> {(q, h). op_parents self h = Some q}\<^sup>+"
    (is "_ \<longleftrightarrow> _ \<and> _ \<in> ?E\<^sup>+")
proof -
  have child: "children_of self q (lb_hash b) = Some b \<longleftrightarrow>
      orphan_get_block self (lb_hash b) = Some b \<and> op_parents self (lb_hash b) = Some q" for q
  proof
    assume c: "children_of self q (lb_hash b) = Some b"
    then have "lb_parent_hash b = q" "op_parents self (lb_hash b) = Some q"
      using assms(1) unfolding pool_ok_def by blast+
    then show "orphan_get_block self (lb_hash b) = Some b \<and> op_parents self (lb_hash b) = Some q"
      using c by (simp add: get_block_children [OF assms(1)])
  next
    assume b: "orphan_get_block self (lb_hash b) = Some b \<and> op_parents self (lb_hash b) = Some q"
    then have "lb_parent_hash b = q" using pool_ok_parents [OF assms(1), of "lb_hash b" q] by auto
    then show "children_of self q (lb_hash b) = Some b"
      using b get_block_children [OF assms(1), of "lb_hash b" b] by simp
  qed
  have "(p, lb_hash b) \<in> ?E\<^sup>+ \<longleftrightarrow> (\<exists>q. (p, q) \<in> ?E\<^sup>* \<and> op_parents self (lb_hash b) = Some q)"
    by (auto simp: trancl_unfold_right)
  then show ?thesis unfolding assms(2) child by blast
qed

lemma kept_blocks:
  assumes "pool_ok self" "pool_ok self'" "op_parents self' = op_parents self |` (- {h. (p, h) \<in> E\<^sup>+})"
    and "\<And>q. children_of self' q = (if (p, q) \<in> E\<^sup>* then Map.empty else children_of self q)"
    and "E = {(q, h). op_parents self h = Some q}"
  shows "orphan_get_block self' h = (if (p, h) \<in> E\<^sup>+ then None else orphan_get_block self h)"
proof (cases "(p, h) \<in> E\<^sup>+")
  case True
  then show ?thesis by (simp add: assms(3) orphan_get_block_def)
next
  case False
  have "(p, q) \<notin> E\<^sup>*" if "children_of self q h = Some lb" for q lb
  proof -
    have "(q, h) \<in> E" using that assms(1,5) by (simp add: pool_ok_def)
    then show ?thesis using False by (auto intro: rtrancl_into_trancl1)
  qed
  then have "children_of self' q h = children_of self q h" for q
    by (cases "children_of self q h") (auto simp: assms(4))
  then have "orphan_get_block self' h = Some lb \<longleftrightarrow> orphan_get_block self h = Some lb" for lb
    by (simp add: get_block_children [OF assms(1)] get_block_children [OF assms(2)])
  then show ?thesis using False by (metis not_None_eq)
qed

text \<open>A fork below a missing block: block 1 is missing, 2 and 3 follow it, 4 follows 3 and arrives first.\<close>

definition ex_orphan :: "byte32 \<Rightarrow> byte32 \<Rightarrow> LonelyBlockHash" where
  "ex_orphan p h = \<lparr>lb_number = 0, lb_hash = h, lb_parent_hash = p, lb_epoch_number = 0, lb_switch = None,
     lb_verify_callback = None\<rparr>"

definition ex_orphans :: InnerPool where
  "ex_orphans = fold (\<lambda>(p, h) self. orphan_insert self (ex_orphan p h)) [([3], [4]), ([1], [2]), ([1], [3])] orphan_pool_new"

lemma ex_orphans_parents: "op_parents ex_orphans = [[4] \<mapsto> [3], [2] \<mapsto> [1], [3] \<mapsto> [1]]"
  by (simp add: ex_orphans_def ex_orphan_def orphan_pool_new_def)

lemma ex_orphans_leaders: "op_leaders ex_orphans = [[1]]"
  by (simp add: ex_orphans_def ex_orphan_def orphan_pool_new_def orphan_insert_def)

lemma ex_orphans_reachable: "orphan_reachable ex_orphans"
  unfolding ex_orphans_def
  by (simp, intro orphan_reachable.intros) (simp_all add: ex_orphan_def orphan_pool_new_def)

section \<open>Properties\<close>

text \<open>C38. In every state that inserting, removing and cleaning can lead to, the three maps of the orphan pool agree: a
  hash is a key of the map of parents exactly when the pool returns a block for it, that block has this hash and
  this parent, and the leaders are exactly the hashes that are not in the pool but have a child there.\<close>

theorem orphan_pool_consistent:
  assumes "orphan_reachable self"
  shows "(op_parents self hash = Some p \<longleftrightarrow>
      (\<exists>lb. orphan_get_block self hash = Some lb \<and> lb_hash lb = hash \<and> lb_parent_hash lb = p)) \<and>
    (p \<in> set (op_leaders self) \<longleftrightarrow> op_parents self p = None \<and> (\<exists>child. op_parents self child = Some p))"
  using pool_ok_parents pool_ok_leaders orphan_reachable_ok [OF assms] by blast

theorem orphan_pool_consistent_witness:
  "op_leaders ex_orphans = [[1]] \<and> op_parents ex_orphans [1] = None \<and> (\<exists>child. op_parents ex_orphans child = Some [1]) \<and>
    (\<exists>lb. orphan_get_block ex_orphans [4] = Some lb \<and> lb_hash lb = [4] \<and> lb_parent_hash lb = [3])"
  using orphan_pool_consistent [OF ex_orphans_reachable, of "[4]" "[3]"] orphan_pool_consistent [OF ex_orphans_reachable, of "[4]" "[1]"]
  by (simp add: ex_orphans_parents ex_orphans_leaders)

text \<open>C37. No orphan is stranded. Whenever parents lie strictly below their children, every block of the pool descends from a
  leader, and when that leader's block arrives, asking the pool for its descendants hands this block out and
  takes it from the pool, hands out only blocks that descend from the leader, each as it was stored, and keeps
  every other block.\<close>

theorem orphans_released:
  assumes "orphan_reachable self" "\<And>h p. op_parents self h = Some p \<Longrightarrow> rank p < (rank h :: nat)"
    and "orphan_get_block self hash = Some lb"
  shows "\<exists>p self' removed. p \<in> set (op_leaders self) \<and> (p, hash) \<in> {(q, h). op_parents self h = Some q}\<^sup>+ \<and>
    remove_blocks_by_parent self p = (self', removed) \<and> lb \<in> set removed \<and> orphan_get_block self' hash = None \<and>
    (\<forall>b\<in>set removed. orphan_get_block self (lb_hash b) = Some b \<and> (p, lb_hash b) \<in> {(q, h). op_parents self h = Some q}\<^sup>+) \<and>
    (\<forall>h. (p, h) \<notin> {(q, h). op_parents self h = Some q}\<^sup>+ \<longrightarrow> orphan_get_block self' h = orphan_get_block self h)"
proof -
  have ok: "pool_ok self" by (rule orphan_reachable_ok [OF assms(1)])
  have E: "edges (op_blocks self) = {(q, h). op_parents self h = Some q}" (is "_ = ?E") using pool_edges [OF ok] by auto
  have "op_parents self hash \<noteq> None" using assms(3) by (auto simp: orphan_get_block_def Option.bind_eq_Some_conv)
  then obtain p where p: "p \<in> set (op_leaders self)" "(p, hash) \<in> ?E\<^sup>+"
    using block_below_leader [OF ok, of rank hash] assms(2) E by metis
  obtain self' removed where r: "remove_blocks_by_parent self p = (self', removed)"
    "op_parents self' = op_parents self |` (- {h. (p, h) \<in> ?E\<^sup>+})"
    "\<And>q. children_of self' q = (if (p, q) \<in> ?E\<^sup>* then Map.empty else children_of self q)"
    "\<And>lb. lb \<in> set removed \<longleftrightarrow> (\<exists>q. (p, q) \<in> ?E\<^sup>* \<and> children_of self q (lb_hash lb) = Some lb)"
    "pool_ok self'"
    by (rule remove_leader [OF ok p(1), unfolded E]) (rule that)
  have out: "b \<in> set removed \<longleftrightarrow> orphan_get_block self (lb_hash b) = Some b \<and> (p, lb_hash b) \<in> ?E\<^sup>+" for b
    by (rule removed_blocks [OF ok r(4)])
  have "lb_hash lb = hash" using get_block_children [OF ok] assms(3) ok unfolding pool_ok_def by blast
  then have "lb \<in> set removed" using out p(2) assms(3) by simp
  moreover have "orphan_get_block self' h = (if (p, h) \<in> ?E\<^sup>+ then None else orphan_get_block self h)" for h
    by (rule kept_blocks [OF ok r(5,2,3) refl])
  ultimately show ?thesis using p r(1) out by (metis (no_types, lifting))
qed

theorem orphans_released_witness:
  "\<exists>self' removed. remove_blocks_by_parent ex_orphans [1] = (self', removed) \<and> ex_orphan [3] [4] \<in> set removed \<and>
    orphan_get_block self' [4] = None"
proof -
  have rank: "op_parents ex_orphans h = Some p \<Longrightarrow> unat (hd p) < unat (hd h)" for h p
    by (auto simp: ex_orphans_parents split: if_splits)
  have "orphan_get_block ex_orphans [4] = Some (ex_orphan [3] [4])"
    by (simp add: orphan_get_block_def ex_orphans_parents) (simp add: ex_orphans_def ex_orphan_def orphan_pool_new_def orphan_insert_def)
  then have "\<exists>p self' removed. p \<in> set (op_leaders ex_orphans) \<and> remove_blocks_by_parent ex_orphans p = (self', removed) \<and>
      ex_orphan [3] [4] \<in> set removed \<and> orphan_get_block self' [4] = None"
    using orphans_released [where rank = "\<lambda>h. unat (hd h)" and hash = "[4]" and lb = "ex_orphan [3] [4]", OF ex_orphans_reachable rank] by blast
  then show ?thesis by (simp add: ex_orphans_leaders)
qed

end
