(* ===== verification/Spec2Isabelle.thy ===== *)
theory Spec2Isabelle
  imports Tx_Verifier Chain_Fork Orphan_Pool
begin

text \<open>
  A verification library for the CKB node.
\<close>

end
